(* ===== verification/Prelude.thy ===== *)
theory Prelude
  imports Complex_Main
begin

text \<open>
  Shared vocabulary of the development.  JavaScript strings are sequences of UTF-16 code
  units; every character the source compares against (the Chinese numerals, the unit words,
  the homophones of the negative sign) lies in the Basic Multilingual Plane, so one source
  character is one code unit.  A code unit is modelled as a \<open>nat\<close> below \<open>2 ^ 16\<close>
  (\<open>jchar\<close>) and a JS string as a list of them (\<open>jstring\<close>); ASCII literals are written
  \<open>js_str ''...''\<close>.  The theory also models the JS builtins the source calls on strings:
  the \<open>\s\<close> and \<open>\d\<close> character classes of regular expressions, \<open>String.prototype.trim\<close>,
  \<open>includes\<close> and \<open>toLowerCase\<close> (on ASCII letters).
\<close>

named_theorems js_string_simps "evaluation rules for the JS string builtins"

type_synonym jchar = nat
type_synonym jstring = "jchar list"

definition js_str :: "string \<Rightarrow> jstring" where
  "js_str s = map of_char s"

text \<open>The one exception the program can meet: \<open>recognition.start()\<close> on a busy engine.\<close>

datatype js_error = InvalidStateError

subsection \<open>Characters named by the source\<close>

abbreviation LING :: jchar where "LING \<equiv> 0x96F6"  \<comment> \<open>zero\<close>
abbreviation YI :: jchar where "YI \<equiv> 0x4E00"  \<comment> \<open>one\<close>
abbreviation ER :: jchar where "ER \<equiv> 0x4E8C"  \<comment> \<open>two\<close>
abbreviation SAN :: jchar where "SAN \<equiv> 0x4E09"  \<comment> \<open>three\<close>
abbreviation SI :: jchar where "SI \<equiv> 0x56DB"  \<comment> \<open>four\<close>
abbreviation WU :: jchar where "WU \<equiv> 0x4E94"  \<comment> \<open>five\<close>
abbreviation LIU :: jchar where "LIU \<equiv> 0x516D"  \<comment> \<open>six\<close>
abbreviation QI :: jchar where "QI \<equiv> 0x4E03"  \<comment> \<open>seven\<close>
abbreviation BA :: jchar where "BA \<equiv> 0x516B"  \<comment> \<open>eight\<close>
abbreviation JIU :: jchar where "JIU \<equiv> 0x4E5D"  \<comment> \<open>nine\<close>
abbreviation SHI :: jchar where "SHI \<equiv> 0x5341"  \<comment> \<open>ten\<close>
abbreviation BAI :: jchar where "BAI \<equiv> 0x767E"  \<comment> \<open>hundred\<close>
abbreviation QIAN :: jchar where "QIAN \<equiv> 0x5343"  \<comment> \<open>thousand\<close>
abbreviation WAN :: jchar where "WAN \<equiv> 0x4E07"  \<comment> \<open>ten thousand\<close>
abbreviation DIAN :: jchar where "DIAN \<equiv> 0x70B9"  \<comment> \<open>decimal point (spoken)\<close>
abbreviation MI :: jchar where "MI \<equiv> 0x7C73"  \<comment> \<open>metre\<close>
abbreviation DU :: jchar where "DU \<equiv> 0x5EA6"  \<comment> \<open>degree\<close>
abbreviation DEGREE_SIGN :: jchar where "DEGREE_SIGN \<equiv> 0xB0"
abbreviation JI :: jchar where "JI \<equiv> 0x8BA1"  \<comment> \<open>first character of "calculate"\<close>
abbreviation SUAN :: jchar where "SUAN \<equiv> 0x7B97"  \<comment> \<open>second character of "calculate"\<close>
abbreviation JIAO :: jchar where "JIAO \<equiv> 0x89D2"  \<comment> \<open>angle\<close>
abbreviation FU_NEG :: jchar where "FU_NEG \<equiv> 0x8D1F"  \<comment> \<open>negative\<close>
abbreviation FU_PAY :: jchar where "FU_PAY \<equiv> 0x4ED8"  \<comment> \<open>a homophone of the negative sign\<close>
abbreviation DOT :: jchar where "DOT \<equiv> 46"  \<comment> \<open>ASCII full stop\<close>
abbreviation COLON :: jchar where "COLON \<equiv> 58"  \<comment> \<open>ASCII colon\<close>

subsection \<open>Regular-expression character classes\<close>

text \<open>\<open>\d\<close> without the \<open>u\<close> flag is exactly \<open>[0-9]\<close>.\<close>

definition is_ascii_digit :: "jchar \<Rightarrow> bool" where
  "is_ascii_digit c \<longleftrightarrow> 48 \<le> c \<and> c \<le> 57"

text \<open>
  \<open>\s\<close> is WhiteSpace or LineTerminator of ECMA-262: tab, line tab, form feed, space,
  no-break space, the zero-width no-break space and the Unicode space separators, plus the four
  line terminators.  \<open>String.prototype.trim\<close> strips the same set.
\<close>

definition is_js_space :: "jchar \<Rightarrow> bool" where
  "is_js_space c \<longleftrightarrow>
     c \<in> {9, 10, 11, 12, 13, 32, 0xA0, 0x1680, 0x2028, 0x2029, 0x202F, 0x205F, 0x3000, 0xFEFF}
     \<or> (0x2000 \<le> c \<and> c \<le> 0x200A)"

text \<open>\<open>.\<close> matches every code unit but the four line terminators.\<close>

definition is_line_terminator :: "jchar \<Rightarrow> bool" where
  "is_line_terminator c \<longleftrightarrow> c \<in> {10, 13, 0x2028, 0x2029}"

definition js_trim :: "jstring \<Rightarrow> jstring" where
  "js_trim s = rev (dropWhile is_js_space (rev (dropWhile is_js_space s)))"

subsection \<open>includes and toLowerCase\<close>

fun starts_with :: "jstring \<Rightarrow> jstring \<Rightarrow> bool" where
  "starts_with s [] = True"
| "starts_with [] (c # cs) = False"
| "starts_with (d # ds) (c # cs) = (d = c \<and> starts_with ds cs)"

text \<open>\<open>s.includes(n)\<close>: some position of \<open>s\<close> starts an occurrence of \<open>n\<close>.\<close>

fun js_includes :: "jstring \<Rightarrow> jstring \<Rightarrow> bool" where
  "js_includes [] n = (n = [])"
| "js_includes (c # cs) n = (starts_with (c # cs) n \<or> js_includes cs n)"

text \<open>
  \<open>toLowerCase\<close> maps the ASCII capitals to small letters; it leaves every CJK code unit
  unchanged.  Other scripts' capitals are not modelled (no indicator of the source contains a
  letter outside \<open>[a-z]\<close> or the CJK block, and no capital outside ASCII lowers to one).
\<close>

definition to_lower_char :: "jchar \<Rightarrow> jchar" where
  "to_lower_char c = (if 65 \<le> c \<and> c \<le> 90 then c + 32 else c)"

definition js_to_lower :: "jstring \<Rightarrow> jstring" where
  "js_to_lower s = map to_lower_char s"

subsection \<open>Generic lemmas\<close>

lemma starts_with_iff_prefix [simp]: "starts_with s n \<longleftrightarrow> take (length n) s = n"
  by (induction s n rule: starts_with.induct) auto

lemma js_includes_iff: "js_includes s n \<longleftrightarrow> (\<exists>p q. s = p @ n @ q)"
proof (induction s)
  case Nil
  then show ?case by simp
next
  case (Cons c cs)
  have "take (length n) (c # cs) = n \<longleftrightarrow> (\<exists>q. c # cs = n @ q)"
    by (metis append_eq_conv_conj)
  moreover have "(\<exists>p q. c # cs = p @ n @ q) \<longleftrightarrow>
      (\<exists>q. c # cs = n @ q) \<or> (\<exists>p q. cs = p @ n @ q)"
    by (auto simp: Cons_eq_append_conv)
  ultimately show ?case using Cons.IH by simp
qed

lemma js_includes_single [simp]: "js_includes s [c] \<longleftrightarrow> c \<in> set s"
  by (induction s) auto

lemma js_includes_append_right: "js_includes s (n @ m) \<Longrightarrow> js_includes s n"
  by (auto simp: js_includes_iff)

lemma js_includes_Nil [simp]: "js_includes s []"
  by (cases s) auto

lemma find_Some_mem: "find P xs = Some x \<Longrightarrow> x \<in> set xs \<and> P x"
  by (auto simp: find_Some_iff)

lemma ascii_digit_not_space: "is_ascii_digit c \<Longrightarrow> \<not> is_js_space c"
  by (auto simp: is_ascii_digit_def is_js_space_def)

declare is_ascii_digit_def [js_string_simps] is_js_space_def [js_string_simps] is_line_terminator_def [js_string_simps]
  js_str_def [js_string_simps] to_lower_char_def [js_string_simps]
  js_to_lower_def [js_string_simps] js_trim_def [js_string_simps]

end
