(* ===== verification/Log_Panel.thy ===== *)
theory Log_Panel
  imports Prelude "HOL-Library.While_Combinator"
begin

text \<open>
  The log panel of \<^verbatim>\<open>src/speech.js\<close>: \<open>addLog\<close> (lines 91--116) inserts the new
  entry before the first child of \<open>#voiceLogContent\<close> and then removes the last child while
  there are more than ten; \<open>createLogBox\<close> (lines 37--89) replaces the whole panel by an
  empty one and logs that it is ready.  This theory holds what is independent of the handler:
  the entries and the insertion with its trimming loop, kept as a \<open>while_option\<close> loop so
  that its termination is a theorem (\<open>trim_log_take\<close>).  The operations on the handler's
  state are \<open>add_log\<close> and \<open>create_log_box\<close> in \<open>Handler_State\<close>.

  An entry is the logged message and its type (\<open>'info'\<close>, the default, or \<open>'error'\<close>,
  which only selects the colour).  The messages are the template strings of the source's
  \<open>addLog\<close> calls, one constructor per call, carrying the values interpolated into them;
  the \<open>[time]\<close> prefix read from the clock and the styling are not modelled.
\<close>

datatype log_type = LogInfo | LogError

datatype log_msg =
    LogInitDone  \<comment> \<open>line 88\<close>
  | LogRecognized jstring  \<comment> \<open>line 121, the transcript\<close>
  | LogRecError jstring  \<comment> \<open>line 132, \<open>event.error\<close>\<close>
  | LogDistance real jstring  \<comment> \<open>line 210, the value and its text\<close>
  | LogAngle real jstring  \<comment> \<open>line 245\<close>
  | LogSpoken jstring  \<comment> \<open>line 288, the utterance's text\<close>
  | LogSpeakError  \<comment> \<open>line 306\<close>
  | LogVoiceOn  \<comment> \<open>line 328\<close>
  | LogStartFailed js_error  \<comment> \<open>line 342, \<open>error.message\<close>\<close>
  | LogVoiceOff  \<comment> \<open>line 353\<close>
  | LogRawResults jstring  \<comment> \<open>line 379\<close>
  | LogMatches "jstring option" "jstring option"  \<comment> \<open>line 397, the two captures\<close>
  | LogAnnouncement jstring  \<comment> \<open>line 398\<close>

type_synonym log_entry = "log_msg \<times> log_type"

abbreviation max_log_entries :: nat where "max_log_entries \<equiv> 10"

text \<open>
  \<open>while (logContent.children.length > 10) logContent.removeChild(logContent.lastChild)\<close>,
  lines 113--115: \<open>None\<close> would be a loop that never ends.
\<close>

definition trim_log :: "'a list \<Rightarrow> 'a list option" where
  "trim_log children = while_option (\<lambda>cs. max_log_entries < length cs) butlast children"

text \<open>\<open>logContent.insertBefore(logEntry, logContent.firstChild)\<close> and the loop.\<close>

definition log_insert :: "'a \<Rightarrow> 'a list \<Rightarrow> 'a list option" where
  "log_insert entry children = trim_log (entry # children)"

subsection \<open>The trimming loop\<close>

lemma take_butlast_le: "n < length xs \<Longrightarrow> take n (butlast xs) = take n xs"
  by (simp add: butlast_conv_take min_def) arith

lemma while_option_butlast:
  "while_option (\<lambda>cs. n < length cs) butlast xs = Some (take n xs)"
proof (induction "length xs" arbitrary: xs rule: less_induct)
  case less
  show ?case
  proof (cases "n < length xs")
    case True
    then have "while_option (\<lambda>cs. n < length cs) butlast (butlast xs) = Some (take n (butlast xs))"
      by (intro less) simp
    with True show ?thesis
      by (simp add: while_option_unfold [of _ _ xs] take_butlast_le)
  next
    case False
    then show ?thesis by (simp add: while_option_unfold [of _ _ xs])
  qed
qed

lemma take_Cons_take: "0 < n \<Longrightarrow> take n (x # take n ys) = take n (x # ys)"
  by (cases n) simp_all

lemma log_insert_take [simp]: "log_insert e cs = Some (take max_log_entries (e # cs))"
  by (simp add: log_insert_def trim_log_def while_option_butlast)

text \<open>
  C16: the trimming loop of \<open>addLog\<close> terminates on every panel, and it leaves exactly the
  first ten children: those inserted last.
\<close>

theorem trim_log_take: "trim_log children = Some (take max_log_entries children)"
  by (simp add: trim_log_def while_option_butlast)

end
