(* ===== verification/Handler_State.thy ===== *)
theory Handler_State
  imports Log_Panel
begin

text \<open>
  The state shared by the output queue and the device arbiter: the fields of
  \<open>SpeechHandler\<close> (\<^verbatim>\<open>src/speech.js\<close>, lines 5--35) as the record
  \<open>speech_handler\<close>, extended to \<open>world\<close> with what the program's environment keeps and
  the program observes: the recognition engine's state, the utterance the synthesis engine is
  playing, the \<open>setTimeout\<close> callbacks not yet run, the calls made on the calculator page,
  the entries of the log panel (\<open>None\<close> while \<open>#voiceLogContent\<close> does not exist: the
  constructor does not create it, \<open>startListening\<close> does) and the number of
  \<open>console.error\<close> calls of \<open>addLog\<close>.
  Two history fields record the texts passed to \<open>speak\<close> and to
  \<open>speechSynthesis.speak\<close>, and one the value of \<open>isSpeaking\<close> at every successful
  \<open>recognition.start()\<close>; the program never reads them.

  The recognition engine follows the Web Speech API: \<open>start()\<close> throws
  \<open>InvalidStateError\<close> unless the engine is idle; \<open>stop()\<close> asks a running session to
  end; the engine delivers \<open>result\<close> and \<open>error\<close> events while a session is open and
  closes it with an \<open>end\<close> event.  \<open>speechSynthesis.cancel()\<close> drops the utterance in
  flight, \<open>speechSynthesis.speak(u)\<close> starts \<open>u\<close>, which later ends or fails.
\<close>

datatype rec_state = RecIdle | RecActive | RecStopping

text \<open>The four \<open>setTimeout\<close> callbacks of the source.\<close>

datatype timer_task =
    RestartAfterError  \<comment> \<open>\<open>recognition.start()\<close> after 1000 ms, line 134\<close>
  | ProcessQueueLater  \<comment> \<open>\<open>processSpeechQueue()\<close> after 300 ms, lines 294 and 310\<close>
  | RestartAfterDrain  \<comment> \<open>\<open>recognition.start()\<close> after 500 ms, line 298\<close>
  | ReadResultsLater  \<comment> \<open>reading the results after 1000 ms, line 375\<close>

text \<open>Writes to the calculator's input fields and clicks on its buttons.\<close>

datatype calc_action = SetInputD real | SetInputThetaAim real | ClickTrackerDart | ClickCalc

record speech_handler =
  isListening :: bool
  isSpeaking :: bool
  lastWindowFocus :: bool
  speechQueue :: "jstring list"
  lastSetDistance :: "real option"
  lastSetAngle :: "real option"

record world = speech_handler +
  rec :: rec_state
  synth_current :: "jstring option"
  timers :: "timer_task list"
  calc_log :: "calc_action list"
  enqueued :: "jstring list"
  spoken :: "jstring list"
  rec_starts :: "bool list"
  uncaught :: "js_error list"
  log_box :: "log_entry list option"
  console_errors :: nat

text \<open>The constructor (lines 5--35): nothing pending, the window focused.\<close>

definition init_world :: world where
  "init_world =
     \<lparr>isListening = False, isSpeaking = False, lastWindowFocus = True, speechQueue = [],
      lastSetDistance = None, lastSetAngle = None,
      rec = RecIdle, synth_current = None, timers = [], calc_log = [],
      enqueued = [], spoken = [], rec_starts = [], uncaught = [],
      log_box = None, console_errors = 0\<rparr>"

subsection \<open>The engines' operations\<close>

definition rec_start :: "world \<Rightarrow> js_error + world" where
  "rec_start w =
     (if rec w = RecIdle
      then Inr (w\<lparr>rec := RecActive, rec_starts := rec_starts w @ [isSpeaking w]\<rparr>)
      else Inl InvalidStateError)"

definition rec_stop :: "world \<Rightarrow> world" where
  "rec_stop w = (if rec w = RecActive then w\<lparr>rec := RecStopping\<rparr> else w)"

text \<open>An exception no handler catches ends the callback; the browser reports it.\<close>

definition uncaught_start :: "world \<Rightarrow> world" where
  "uncaught_start w = (case rec_start w of Inl e \<Rightarrow> w\<lparr>uncaught := uncaught w @ [e]\<rparr> | Inr w' \<Rightarrow> w')"

definition synth_cancel :: "world \<Rightarrow> world" where
  "synth_cancel w = w\<lparr>synth_current := None\<rparr>"

definition synth_speak :: "jstring \<Rightarrow> world \<Rightarrow> world" where
  "synth_speak u w = w\<lparr>synth_current := Some u, spoken := spoken w @ [u]\<rparr>"

definition add_timer :: "timer_task \<Rightarrow> world \<Rightarrow> world" where
  "add_timer t w = w\<lparr>timers := timers w @ [t]\<rparr>"

subsection \<open>The log panel\<close>

text \<open>
  \<open>addLog(text, type)\<close> (lines 91--116): without the panel it reports on the console and
  returns; otherwise it inserts the entry and trims the panel to ten entries.
\<close>

definition add_log :: "log_msg \<Rightarrow> log_type \<Rightarrow> world \<Rightarrow> world" where
  "add_log text type w =
     (case log_box w of
        None \<Rightarrow> w\<lparr>console_errors := console_errors w + 1\<rparr>
      | Some children \<Rightarrow>
          (case log_insert (text, type) children of
             None \<Rightarrow> w
           | Some children' \<Rightarrow> w\<lparr>log_box := Some children'\<rparr>))"

text \<open>\<open>createLogBox()\<close> (lines 37--89): the old panel is removed with its entries.\<close>

definition create_log_box :: "world \<Rightarrow> world" where
  "create_log_box w = add_log LogInitDone LogInfo (w\<lparr>log_box := Some []\<rparr>)"

lemma add_log_Some [simp]:
  "log_box w = Some cs \<Longrightarrow>
   add_log m t w = w\<lparr>log_box := Some (take max_log_entries ((m, t) # cs))\<rparr>"
  by (simp add: add_log_def)

lemma add_log_None [simp]:
  "log_box w = None \<Longrightarrow> add_log m t w = w\<lparr>console_errors := console_errors w + 1\<rparr>"
  by (simp add: add_log_def)

lemma log_box_add_log [simp]:
  "log_box (add_log m t w) = map_option (\<lambda>cs. take max_log_entries ((m, t) # cs)) (log_box w)"
  by (simp add: add_log_def split: option.split)

lemma console_errors_add_log [simp]:
  "console_errors (add_log m t w) =
     (if log_box w = None then Suc (console_errors w) else console_errors w)"
  by (simp add: add_log_def split: option.split)

lemma create_log_box_eq [simp]:
  "create_log_box w = w\<lparr>log_box := Some [(LogInitDone, LogInfo)]\<rparr>"
  by (simp add: create_log_box_def)

text \<open>\<open>addLog\<close> changes nothing but the panel and the console.\<close>

lemma add_log_frame [simp]:
  "isListening (add_log m t w) = isListening w" "isSpeaking (add_log m t w) = isSpeaking w"
  "lastWindowFocus (add_log m t w) = lastWindowFocus w" "speechQueue (add_log m t w) = speechQueue w"
  "lastSetDistance (add_log m t w) = lastSetDistance w" "lastSetAngle (add_log m t w) = lastSetAngle w"
  "rec (add_log m t w) = rec w" "synth_current (add_log m t w) = synth_current w"
  "timers (add_log m t w) = timers w" "calc_log (add_log m t w) = calc_log w"
  "enqueued (add_log m t w) = enqueued w" "spoken (add_log m t w) = spoken w"
  "rec_starts (add_log m t w) = rec_starts w" "uncaught (add_log m t w) = uncaught w"
  by (simp_all add: add_log_def split: option.split)

lemma rec_start_Inr:
  "rec_start w = Inr w' \<longleftrightarrow>
     rec w = RecIdle \<and> w' = w\<lparr>rec := RecActive, rec_starts := rec_starts w @ [isSpeaking w]\<rparr>"
  by (auto simp: rec_start_def)

lemma uncaught_start_idle:
  "rec w = RecIdle \<Longrightarrow>
   uncaught_start w = w\<lparr>rec := RecActive, rec_starts := rec_starts w @ [isSpeaking w]\<rparr>"
  by (simp add: uncaught_start_def rec_start_def)

lemma uncaught_start_busy:
  "rec w \<noteq> RecIdle \<Longrightarrow> uncaught_start w = w\<lparr>uncaught := uncaught w @ [InvalidStateError]\<rparr>"
  by (simp add: uncaught_start_def rec_start_def)

lemma log_engine_frame [simp]:
  "log_box (uncaught_start w) = log_box w" "console_errors (uncaught_start w) = console_errors w"
  "log_box (rec_stop w) = log_box w" "console_errors (rec_stop w) = console_errors w"
  "log_box (synth_cancel w) = log_box w" "console_errors (synth_cancel w) = console_errors w"
  "log_box (synth_speak u w) = log_box w" "console_errors (synth_speak u w) = console_errors w"
  "log_box (add_timer t w) = log_box w" "console_errors (add_timer t w) = console_errors w"
  by (simp_all add: uncaught_start_def rec_start_def rec_stop_def synth_cancel_def synth_speak_def
      add_timer_def split: sum.split)

subsection \<open>The panel once it exists\<close>

text \<open>
  \<open>log_ok\<close>: the panel exists, holds at most ten entries, and \<open>addLog\<close> has never found
  it missing.  Every operation keeps it; the rules below are collected in \<open>log_ok_rules\<close>.
\<close>

definition log_ok :: "world \<Rightarrow> bool" where
  "log_ok w \<longleftrightarrow>
     (\<exists>cs. log_box w = Some cs \<and> length cs \<le> max_log_entries) \<and> console_errors w = 0"

named_theorems log_ok_rules "operations that keep the log panel invariant"

lemma log_ok_upd [simp, log_ok_rules]:
  "log_ok (w\<lparr>isListening := b\<rparr>) = log_ok w" "log_ok (w\<lparr>isSpeaking := b\<rparr>) = log_ok w"
  "log_ok (w\<lparr>lastWindowFocus := b\<rparr>) = log_ok w" "log_ok (w\<lparr>speechQueue := q\<rparr>) = log_ok w"
  "log_ok (w\<lparr>lastSetDistance := d\<rparr>) = log_ok w" "log_ok (w\<lparr>lastSetAngle := d\<rparr>) = log_ok w"
  "log_ok (w\<lparr>rec := r\<rparr>) = log_ok w" "log_ok (w\<lparr>synth_current := u\<rparr>) = log_ok w"
  "log_ok (w\<lparr>timers := ts\<rparr>) = log_ok w" "log_ok (w\<lparr>calc_log := l\<rparr>) = log_ok w"
  "log_ok (w\<lparr>enqueued := q\<rparr>) = log_ok w" "log_ok (w\<lparr>spoken := q\<rparr>) = log_ok w"
  "log_ok (w\<lparr>rec_starts := bs\<rparr>) = log_ok w" "log_ok (w\<lparr>uncaught := es\<rparr>) = log_ok w"
  by (simp_all add: log_ok_def)

lemma log_ok_log_box [simp]:
  "log_ok (w\<lparr>log_box := Some cs\<rparr>) \<longleftrightarrow> length cs \<le> max_log_entries \<and> console_errors w = 0"
  by (simp add: log_ok_def)

lemma log_ok_engine_ops [simp, log_ok_rules]:
  "log_ok (uncaught_start w) = log_ok w" "log_ok (rec_stop w) = log_ok w"
  "log_ok (synth_cancel w) = log_ok w" "log_ok (synth_speak u w) = log_ok w"
  "log_ok (add_timer t w) = log_ok w"
  by (simp_all add: log_ok_def)

lemma log_ok_add_log [log_ok_rules]: "log_ok w \<Longrightarrow> log_ok (add_log m t w)"
  by (auto simp: log_ok_def)

lemma log_ok_create_log_box [log_ok_rules]:
  "console_errors w = 0 \<Longrightarrow> log_ok (create_log_box w)"
  by (simp add: log_ok_def)

subsection \<open>Properties of the log panel\<close>

text \<open>
  C17: while the panel exists (and holds at most ten entries, as it always does), a sequence
  of \<open>addLog\<close> calls leaves the ten most recent entries on it, the newest first.
\<close>

theorem add_logs_keep_latest:
  assumes "log_box w = Some cs" and "length cs \<le> max_log_entries"
  shows "log_box (foldl (\<lambda>w (m, t). add_log m t w) w entries) =
           Some (take max_log_entries (rev entries @ cs))"
  using assms
proof (induction entries arbitrary: w cs rule: rev_induct)
  case Nil
  then show ?case by simp
next
  case (snoc e es)
  then show ?case by (cases e) (simp add: take_Cons_take del: take_append)
qed


theorem add_logs_keep_latest_witness:
  "log_box (init_world\<lparr>log_box := Some [(LogInitDone, LogInfo)]\<rparr>) = Some [(LogInitDone, LogInfo)] \<and>
   length [(LogInitDone, LogInfo)] \<le> max_log_entries \<and>
   log_box (foldl (\<lambda>w (m, t). add_log m t w) (init_world\<lparr>log_box := Some [(LogInitDone, LogInfo)]\<rparr>)
      [(LogVoiceOn, LogInfo), (LogSpeakError, LogError)]) =
     Some [(LogSpeakError, LogError), (LogVoiceOn, LogInfo), (LogInitDone, LogInfo)]"
  using add_logs_keep_latest [of "init_world\<lparr>log_box := Some [(LogInitDone, LogInfo)]\<rparr>"
      "[(LogInitDone, LogInfo)]" "[(LogVoiceOn, LogInfo), (LogSpeakError, LogError)]"]
  by simp

end
