(* ===== verification/Output_Queue.thy ===== *)
theory Output_Queue
  imports Handler_State
begin

text \<open>
  The announcement queue of \<^verbatim>\<open>src/speech.js\<close>: \<open>speak\<close> (lines 262--270),
  \<open>processSpeechQueue\<close> (lines 272--317) and the two callbacks it installs on the
  utterance, \<open>onend\<close> (lines 286--302) and \<open>onerror\<close> (lines 304--314).  The
  \<open>utterance_*_event\<close> functions are what happens when the synthesis engine finishes or
  fails the utterance in flight: the engine becomes idle and the callback runs.

  \<open>queue_inv\<close> is the queue's invariant: \<open>isSpeaking\<close> agrees with the engine, the
  utterance in flight is the head of \<open>speechQueue\<close>, and the texts handed to the engine so
  far, followed by the ones still waiting, are exactly the texts passed to \<open>speak\<close>, in
  order.  From it: utterances are played in FIFO order, each once, and
  \<open>speechSynthesis.cancel()\<close> never cuts one off.  \<open>drain_ok\<close> states that a queue
  waiting while nothing plays has its \<open>processSpeechQueue\<close> timer pending, which makes the
  queue drain; both callbacks log through \<open>add_log\<close> and keep the log panel's invariant
  \<open>log_ok\<close>.
\<close>

definition process_speech_queue :: "world \<Rightarrow> world" where
  "process_speech_queue w =
     (if speechQueue w = [] \<or> isSpeaking w then w
      else (let text = hd (speechQueue w);
                w1 = synth_cancel (w\<lparr>isSpeaking := True\<rparr>)
            in synth_speak text w1))"

definition speak :: "jstring \<Rightarrow> world \<Rightarrow> world" where
  "speak text w =
     (let w1 = w\<lparr>speechQueue := speechQueue w @ [text], enqueued := enqueued w @ [text]\<rparr>
      in if \<not> isSpeaking w1 then process_speech_queue w1 else w1)"

text \<open>
  \<open>onend\<close> is a closure over the \<open>text\<close> of \<open>processSpeechQueue\<close>; \<open>shift()\<close>
  removes the head of the queue (and does nothing on an empty queue).
\<close>

definition utterance_onend :: "jstring \<Rightarrow> world \<Rightarrow> world" where
  "utterance_onend text w =
     (let w0 = add_log (LogSpoken text) LogInfo (w\<lparr>isSpeaking := False\<rparr>);
          w1 = w0\<lparr>speechQueue := tl (speechQueue w0)\<rparr>
      in if speechQueue w1 \<noteq> [] then add_timer ProcessQueueLater w1
         else if isListening w1 then add_timer RestartAfterDrain w1
         else w1)"

definition utterance_onerror :: "world \<Rightarrow> world" where
  "utterance_onerror w =
     (let w0 = add_log LogSpeakError LogError (w\<lparr>isSpeaking := False\<rparr>);
          w1 = w0\<lparr>speechQueue := tl (speechQueue w0)\<rparr>
      in if speechQueue w1 \<noteq> [] then add_timer ProcessQueueLater w1 else w1)"

definition utterance_end_event :: "world \<Rightarrow> world" where
  "utterance_end_event w =
     (case synth_current w of None \<Rightarrow> w | Some text \<Rightarrow> utterance_onend text (w\<lparr>synth_current := None\<rparr>))"

definition utterance_error_event :: "world \<Rightarrow> world" where
  "utterance_error_event w = utterance_onerror (w\<lparr>synth_current := None\<rparr>)"

definition queue_inv :: "world \<Rightarrow> bool" where
  "queue_inv w \<longleftrightarrow>
     (isSpeaking w \<longleftrightarrow> synth_current w \<noteq> None) \<and>
     (isSpeaking w \<longrightarrow> speechQueue w \<noteq> [] \<and> synth_current w = Some (hd (speechQueue w))) \<and>
     spoken w @ (if isSpeaking w then tl (speechQueue w) else speechQueue w) = enqueued w"

named_theorems queue_simps "unfolding rules of the queue operations"

declare process_speech_queue_def [queue_simps] speak_def [queue_simps]
  utterance_onend_def [queue_simps] utterance_onerror_def [queue_simps]
  utterance_end_event_def [queue_simps] utterance_error_event_def [queue_simps]
  synth_cancel_def [queue_simps] synth_speak_def [queue_simps] add_timer_def [queue_simps]

subsection \<open>The invariant is kept\<close>

lemma queue_inv_init: "queue_inv init_world"
  by (simp add: queue_inv_def init_world_def)

text \<open>Any change to fields the queue does not own keeps the invariant.\<close>

lemma queue_inv_frame:
  assumes "queue_inv w"
    and "isSpeaking w' = isSpeaking w" and "synth_current w' = synth_current w"
    and "speechQueue w' = speechQueue w" and "spoken w' = spoken w" and "enqueued w' = enqueued w"
  shows "queue_inv w'"
proof -
  have "queue_inv w' = queue_inv w" by (simp only: queue_inv_def assms(2-6))
  with assms(1) show ?thesis by simp
qed

lemma queue_inv_upd [simp]:
  "queue_inv (w\<lparr>isListening := b\<rparr>) = queue_inv w"
  "queue_inv (w\<lparr>lastWindowFocus := b\<rparr>) = queue_inv w"
  "queue_inv (w\<lparr>lastSetDistance := d\<rparr>) = queue_inv w"
  "queue_inv (w\<lparr>lastSetAngle := d\<rparr>) = queue_inv w"
  "queue_inv (w\<lparr>rec := r\<rparr>) = queue_inv w"
  "queue_inv (w\<lparr>timers := ts\<rparr>) = queue_inv w"
  "queue_inv (w\<lparr>calc_log := l\<rparr>) = queue_inv w"
  "queue_inv (w\<lparr>rec_starts := bs\<rparr>) = queue_inv w"
  "queue_inv (w\<lparr>uncaught := es\<rparr>) = queue_inv w"
  "queue_inv (w\<lparr>log_box := lb\<rparr>) = queue_inv w"
  "queue_inv (w\<lparr>console_errors := n\<rparr>) = queue_inv w"
  by (simp_all add: queue_inv_def)

lemma queue_inv_engine_ops [simp]:
  "queue_inv (uncaught_start w) = queue_inv w"
  "queue_inv (rec_stop w) = queue_inv w"
  "queue_inv (add_timer t w) = queue_inv w"
  "queue_inv (add_log m lt w) = queue_inv w"
  by (simp_all add: uncaught_start_def rec_start_def rec_stop_def add_timer_def queue_inv_def)

lemma queue_inv_process_speech_queue: "queue_inv w \<Longrightarrow> queue_inv (process_speech_queue w)"
  by (cases "speechQueue w") (auto simp: queue_inv_def queue_simps Let_def)

lemma queue_inv_speak: "queue_inv w \<Longrightarrow> queue_inv (speak text w)"
proof -
  assume inv: "queue_inv w"
  let ?w1 = "w\<lparr>speechQueue := speechQueue w @ [text], enqueued := enqueued w @ [text]\<rparr>"
  have "queue_inv ?w1"
    using inv by (cases "speechQueue w") (auto simp: queue_inv_def)
  then show ?thesis
    by (simp add: speak_def Let_def queue_inv_process_speech_queue)
qed

lemma queue_inv_utterance_end_event:
  "queue_inv w \<Longrightarrow> synth_current w \<noteq> None \<Longrightarrow> queue_inv (utterance_end_event w)"
  by (cases "speechQueue w") (auto simp: queue_inv_def queue_simps Let_def)

lemma queue_inv_utterance_error_event:
  "queue_inv w \<Longrightarrow> synth_current w \<noteq> None \<Longrightarrow> queue_inv (utterance_error_event w)"
  by (cases "speechQueue w") (auto simp: queue_inv_def queue_simps Let_def)

subsection \<open>The log panel is kept\<close>

lemma log_ok_queue_ops [simp, log_ok_rules]:
  "log_ok (process_speech_queue w) = log_ok w" "log_ok (speak m w) = log_ok w"
  by (simp_all add: queue_simps Let_def)

lemma log_ok_utterance_events [log_ok_rules]:
  "log_ok w \<Longrightarrow> log_ok (utterance_end_event w)"
  "log_ok w \<Longrightarrow> log_ok (utterance_error_event w)"
  by (auto simp: queue_simps Let_def log_ok_add_log split: option.split)

subsection \<open>Progress of the queue\<close>

text \<open>
  \<open>drain_ok\<close>: when nothing plays but texts wait, a \<open>processSpeechQueue\<close> timer is
  pending, so the queue can always move on.
\<close>

definition drain_ok :: "world \<Rightarrow> bool" where
  "drain_ok w \<longleftrightarrow> isSpeaking w \<or> speechQueue w = [] \<or> ProcessQueueLater \<in> set (timers w)"

lemma drain_ok_queue_ops [simp]: "drain_ok (process_speech_queue w)" "drain_ok (speak m w)"
  by (simp_all add: drain_ok_def queue_simps Let_def)

lemma drain_ok_frame [simp]:
  "drain_ok (w\<lparr>isListening := b\<rparr>) = drain_ok w" "drain_ok (w\<lparr>lastWindowFocus := b\<rparr>) = drain_ok w"
  "drain_ok (w\<lparr>lastSetDistance := d\<rparr>) = drain_ok w" "drain_ok (w\<lparr>lastSetAngle := d\<rparr>) = drain_ok w"
  "drain_ok (w\<lparr>rec := r\<rparr>) = drain_ok w" "drain_ok (w\<lparr>calc_log := l\<rparr>) = drain_ok w"
  "drain_ok (w\<lparr>rec_starts := bs\<rparr>) = drain_ok w" "drain_ok (w\<lparr>uncaught := es\<rparr>) = drain_ok w"
  "drain_ok (w\<lparr>log_box := lb\<rparr>) = drain_ok w"
  "drain_ok (add_log m t w) = drain_ok w" "drain_ok (uncaught_start w) = drain_ok w"
  "drain_ok (rec_stop w) = drain_ok w"
  by (simp_all add: drain_ok_def uncaught_start_def rec_start_def rec_stop_def split: sum.split)

lemma drain_ok_add_timer: "drain_ok w \<Longrightarrow> drain_ok (add_timer t w)"
  by (auto simp: drain_ok_def add_timer_def)

lemma drain_ok_utterance_events:
  "drain_ok w \<Longrightarrow> drain_ok (utterance_end_event w)"
  "drain_ok w \<Longrightarrow> drain_ok (utterance_error_event w)"
  by (auto simp: drain_ok_def queue_simps Let_def split: option.split)

subsection \<open>What the operations do\<close>

text \<open>Fields of the handler and of the other engines that the queue leaves alone.\<close>

lemma speak_frame [simp]:
  "lastSetDistance (speak m w) = lastSetDistance w"
  "lastSetAngle (speak m w) = lastSetAngle w"
  "calc_log (speak m w) = calc_log w"
  "enqueued (speak m w) = enqueued w @ [m]"
  "rec_starts (speak m w) = rec_starts w"
  "rec (speak m w) = rec w"
  "timers (speak m w) = timers w"
  "isListening (speak m w) = isListening w"
  "log_box (speak m w) = log_box w"
  "console_errors (speak m w) = console_errors w"
  by (simp_all add: queue_simps Let_def)

lemma process_speech_queue_frame [simp]:
  "rec_starts (process_speech_queue w) = rec_starts w"
  "rec (process_speech_queue w) = rec w"
  "timers (process_speech_queue w) = timers w"
  by (simp_all add: queue_simps Let_def)

lemma speak_idle:
  "\<not> isSpeaking w \<Longrightarrow> speechQueue w = [] \<Longrightarrow>
   speak text w = w\<lparr>speechQueue := [text], enqueued := enqueued w @ [text], isSpeaking := True,
     synth_current := Some text, spoken := spoken w @ [text]\<rparr>"
  by (simp add: queue_simps Let_def)

lemma speak_busy:
  "isSpeaking w \<Longrightarrow>
   speak text w = w\<lparr>speechQueue := speechQueue w @ [text], enqueued := enqueued w @ [text]\<rparr>"
  by (simp add: queue_simps Let_def)


lemma utterance_end_event_fields:
  "synth_current w \<noteq> None \<Longrightarrow>
   speechQueue (utterance_end_event w) = tl (speechQueue w) \<and> \<not> isSpeaking (utterance_end_event w) \<and>
   enqueued (utterance_end_event w) = enqueued w"
  by (auto simp: queue_simps Let_def split: option.split)

end
