(* ===== verification/Numeral_Parser.thy ===== *)
theory Numeral_Parser
  imports Prelude
begin

text \<open>
  The numeral parsers local to \<open>processCommand\<close> in \<^verbatim>\<open>src/speech.js\<close>: the
  \<open>chineseNumbers\<close> table (lines 143--147), \<open>parseChineseNumber\<close> (lines 150--190) as a
  left fold of one step per code unit over the loop state \<open>cn_state\<close>,
  \<open>parseArabicNumber\<close> (lines 193--199) with the \<open>parseFloat\<close> builtin it calls, and the
  test \<open>/^\d+\.?\d*$/\<close> that routes a captured numeral to one of them (lines 206--208).
  JS numbers are doubles; the loop variables of \<open>parseChineseNumber\<close> only ever hold
  non-negative integers, modelled as \<open>nat\<close> (exact while below \<open>2 ^ 53\<close>), and the
  returned number, which may have a fractional part, as a \<open>real\<close> (the double nearest to it).
\<close>

subsection \<open>The table \<open>chineseNumbers\<close>\<close>

text \<open>Entries are numbers or the string \<open>'.'\<close> (for the spoken decimal point).\<close>

datatype cn_entry = CnNum nat | CnDot

definition chinese_numbers_table :: "(jchar \<times> cn_entry) list" where
  "chinese_numbers_table =
     [(LING, CnNum 0), (YI, CnNum 1), (ER, CnNum 2), (SAN, CnNum 3), (SI, CnNum 4),
      (WU, CnNum 5), (LIU, CnNum 6), (QI, CnNum 7), (BA, CnNum 8), (JIU, CnNum 9),
      (SHI, CnNum 10), (BAI, CnNum 100), (QIAN, CnNum 1000), (WAN, CnNum 10000),
      (DIAN, CnDot), (48, CnNum 0), (49, CnNum 1), (50, CnNum 2), (51, CnNum 3), (52, CnNum 4),
      (53, CnNum 5), (54, CnNum 6), (55, CnNum 7), (56, CnNum 8), (57, CnNum 9)]"

definition chinese_numbers :: "jchar \<rightharpoonup> cn_entry" where
  "chinese_numbers = map_of chinese_numbers_table"

subsection \<open>\<open>parseChineseNumber\<close>\<close>

text \<open>The five \<open>let\<close> variables of the function, in the order the source declares them.\<close>

record cn_state =
  result :: nat
  decimal :: nat
  isDecimal :: bool
  temp :: nat
  lastUnit :: nat

definition cn_init :: cn_state where
  "cn_init = \<lparr>result = 0, decimal = 0, isDecimal = False, temp = 0, lastUnit = 1\<rparr>"

text \<open>
  One iteration of the \<open>for\<close> loop (lines 158--181).  The entry \<open>'.'\<close> of the table is
  never looked up, since the code unit that maps to it is caught by the test before the
  lookup; the branch for it keeps the state.
\<close>

definition cn_step :: "cn_state \<Rightarrow> jchar \<Rightarrow> cn_state" where
  "cn_step st c =
     (if c = DIAN then st\<lparr>isDecimal := True\<rparr>
      else case chinese_numbers c of
        None \<Rightarrow> st
      | Some CnDot \<Rightarrow> st
      | Some (CnNum num) \<Rightarrow>
          if isDecimal st then st\<lparr>decimal := decimal st * 10 + num\<rparr>
          else if 10 \<le> num then
            (let t = (if temp st = 0 then 1 else temp st) in
             if lastUnit st < num
             then st\<lparr>result := (result st + t) * num, temp := 0, lastUnit := num\<rparr>
             else st\<lparr>result := result st + t * num, temp := 0, lastUnit := num\<rparr>)
          else st\<lparr>temp := num\<rparr>)"

text \<open>\<open>n.toString().length\<close> for an integer \<open>0 < n < 10 ^ 21\<close>: its number of decimal digits.\<close>

fun dec_len :: "nat \<Rightarrow> nat" where
  "dec_len n = (if n < 10 then 1 else Suc (dec_len (n div 10)))"

declare dec_len.simps [simp del]

definition parse_chinese_number :: "jstring \<Rightarrow> real" where
  "parse_chinese_number text =
     (let st = foldl cn_step cn_init text;
          r = result st + temp st
      in if 0 < decimal st
         then real r + real (decimal st) / 10 ^ dec_len (decimal st)
         else real r)"

subsection \<open>\<open>parseArabicNumber\<close> and \<open>parseFloat\<close>\<close>

definition digit_val :: "jchar \<Rightarrow> nat" where
  "digit_val c = c - 48"

definition digits_value :: "jstring \<Rightarrow> nat" where
  "digits_value ds = foldl (\<lambda>acc d. 10 * acc + digit_val d) 0 ds"

text \<open>
  \<open>parseFloat\<close> on a string over \<open>[0-9.]\<close> (the only strings the source gives it): the
  longest prefix of the form \<open>digits (. digits)?\<close> or \<open>. digits\<close>, \<open>None\<close> for \<open>NaN\<close>.
  Signs, exponents, \<open>Infinity\<close> and leading blanks cannot occur in such a string.
\<close>

definition js_parse_float :: "jstring \<Rightarrow> real option" where
  "js_parse_float s =
     (let ip = takeWhile is_ascii_digit s; rest = dropWhile is_ascii_digit s in
      case rest of
        c # rest' \<Rightarrow>
          if c = DOT
          then (let fp = takeWhile is_ascii_digit rest' in
                if ip = [] \<and> fp = [] then None
                else Some (real (digits_value ip) + real (digits_value fp) / 10 ^ length fp))
          else if ip = [] then None else Some (real (digits_value ip))
      | [] \<Rightarrow> if ip = [] then None else Some (real (digits_value ip)))"

definition is_digit_or_dot :: "jchar \<Rightarrow> bool" where
  "is_digit_or_dot c \<longleftrightarrow> is_ascii_digit c \<or> c = DOT"

definition parse_arabic_number :: "jstring \<Rightarrow> real" where
  "parse_arabic_number text =
     (let text = filter (\<lambda>c. \<not> is_js_space c) text in
      case js_parse_float (filter is_digit_or_dot text) of
        None \<Rightarrow> 0
      | Some number \<Rightarrow> number)"

subsection \<open>Routing a capture: \<open>/^\d+\.?\d*$/.test(text)\<close>\<close>

definition is_arabic_text :: "jstring \<Rightarrow> bool" where
  "is_arabic_text s \<longleftrightarrow>
     (let ip = takeWhile is_ascii_digit s; rest = dropWhile is_ascii_digit s in
      ip \<noteq> [] \<and> (rest = [] \<or> (hd rest = DOT \<and> list_all is_ascii_digit (tl rest))))"

definition parse_number :: "jstring \<Rightarrow> real" where
  "parse_number text =
     (if is_arabic_text text then parse_arabic_number text else parse_chinese_number text)"

subsection \<open>Reference notation for numerals\<close>

text \<open>
  Spoken digits and units by value, the value of a digit sequence (most significant first),
  and the decimal printing of a natural number (\<open>String(n)\<close>); used to state what the
  parsers compute.
\<close>

definition cn_digit :: "nat \<Rightarrow> jchar" where
  "cn_digit d = [LING, YI, ER, SAN, SI, WU, LIU, QI, BA, JIU] ! d"

definition cn_unit :: "nat \<Rightarrow> jchar" where
  "cn_unit e = [SHI, BAI, QIAN, WAN] ! (e - 1)"

text \<open>
  The standard Chinese reading of a number below \<open>10 ^ 4\<close>: each non-zero digit followed by
  its unit, one \<open>LING\<close> (zero) for a run of zero digits between non-zero ones, nothing for
  trailing zeros, and a bare \<open>SHI\<close> (ten) for 10 to 19.  \<open>cn_tail r e z\<close> reads the
  digits of \<open>r\<close> at the positions \<open>e\<close> down to 0 after a leading digit, \<open>z\<close> telling
  that a zero is pending.
\<close>

fun cn_tail :: "nat \<Rightarrow> nat \<Rightarrow> bool \<Rightarrow> jstring" where
  "cn_tail r 0 z = (if r = 0 then [] else (if z then [cn_digit 0] else []) @ [cn_digit r])"
| "cn_tail r (Suc e) z =
     (let d = r div 10 ^ Suc e; r' = r mod 10 ^ Suc e
      in if d = 0 then cn_tail r' e True
         else (if z then [cn_digit 0] else []) @ [cn_digit d, cn_unit (Suc e)] @ cn_tail r' e False)"

definition cn_numeral :: "nat \<Rightarrow> jstring" where
  "cn_numeral n =
     (if n < 10 then [cn_digit n]
      else if n < 20 then cn_unit 1 # cn_tail (n - 10) 0 False
      else if n < 100 then cn_digit (n div 10) # cn_unit 1 # cn_tail (n mod 10) 0 False
      else if n < 1000 then cn_digit (n div 100) # cn_unit 2 # cn_tail (n mod 100) 1 False
      else cn_digit (n div 1000) # cn_unit 3 # cn_tail (n mod 1000) 2 False)"

definition horner :: "nat list \<Rightarrow> nat" where
  "horner ds = foldl (\<lambda>acc d. 10 * acc + d) 0 ds"

definition ascii_digits :: "nat list \<Rightarrow> jstring" where
  "ascii_digits ds = map (\<lambda>d. 48 + d) ds"

fun js_nat_str :: "nat \<Rightarrow> jstring" where
  "js_nat_str n = (if n < 10 then [48 + n] else js_nat_str (n div 10) @ [48 + n mod 10])"

declare js_nat_str.simps [simp del]

subsection \<open>Arithmetic of digit sequences\<close>

lemma foldl_horner_acc:
  "foldl (\<lambda>acc d. 10 * acc + d) (a::nat) ds = a * 10 ^ length ds + foldl (\<lambda>acc d. 10 * acc + d) 0 ds"
proof (induction ds arbitrary: a)
  case Nil
  then show ?case by simp
next
  case (Cons d ds)
  have "foldl (\<lambda>acc d. 10 * acc + d) a (d # ds)
      = (10 * a + d) * 10 ^ length ds + foldl (\<lambda>acc d. 10 * acc + d) 0 ds"
    using Cons.IH [of "10 * a + d"] by simp
  also have "\<dots> = a * 10 ^ length (d # ds) + (d * 10 ^ length ds + foldl (\<lambda>acc d. 10 * acc + d) 0 ds)"
    by (simp add: algebra_simps)
  also have "d * 10 ^ length ds + foldl (\<lambda>acc d. 10 * acc + d) 0 ds
      = foldl (\<lambda>acc d. 10 * acc + d) 0 (d # ds)"
    using Cons.IH [of d] by simp
  finally show ?case .
qed

lemma horner_Cons: "horner (d # ds) = d * 10 ^ length ds + horner ds"
  using foldl_horner_acc [of d ds] by (simp add: horner_def)

lemma horner_snoc: "horner (ds @ [d]) = 10 * horner ds + d"
  by (simp add: horner_def)

lemma horner_replicate_zero [simp]: "horner (replicate z 0 @ ds) = horner ds"
  by (induction z) (simp_all add: horner_Cons)

lemma horner_less: "list_all (\<lambda>d. d < 10) ds \<Longrightarrow> horner ds < 10 ^ length ds"
proof (induction ds)
  case Nil
  then show ?case by (simp add: horner_def)
next
  case (Cons d ds)
  then have "d * 10 ^ length ds + horner ds < d * 10 ^ length ds + 10 ^ length ds" by simp
  also have "\<dots> = (d + 1) * 10 ^ length ds" by simp
  also have "\<dots> \<le> 10 * 10 ^ length ds" using Cons.prems by (intro mult_right_mono) auto
  finally show ?case by (simp add: horner_Cons)
qed

lemma horner_ge: "0 < d \<Longrightarrow> 10 ^ length ds \<le> horner (d # ds)"
  by (simp add: horner_Cons) (metis mult_le_mono1 One_nat_def Suc_leI mult_1 trans_le_add1)

lemma dec_len_eq: "10 ^ k \<le> n \<Longrightarrow> n < 10 ^ Suc k \<Longrightarrow> dec_len n = Suc k"
proof (induction k arbitrary: n)
  case 0
  then show ?case by (simp add: dec_len.simps)
next
  case (Suc k)
  then have "10 ^ k \<le> n div 10" and "n div 10 < 10 ^ Suc k"
    by (simp_all add: less_eq_div_iff_mult_less_eq div_less_iff_less_mult)
  then have "dec_len (n div 10) = Suc k" by (rule Suc.IH)
  moreover have "\<not> n < 10"
  proof -
    have "1 \<le> (10::nat) ^ k" by simp
    with Suc.prems(1) show ?thesis unfolding power_Suc by linarith
  qed
  ultimately show ?case by (simp add: dec_len.simps)
qed

lemma dec_len_horner:
  assumes "list_all (\<lambda>d. d < 10) (f # fs)" and "0 < f"
  shows "dec_len (horner (f # fs)) = length (f # fs)"
proof -
  have "10 ^ length fs \<le> horner (f # fs)" using assms(2) by (rule horner_ge)
  moreover have "horner (f # fs) < 10 ^ Suc (length fs)" using horner_less [OF assms(1)] by simp
  ultimately show ?thesis by (simp add: dec_len_eq)
qed

subsection \<open>The table on digits and units\<close>

lemma less_10_cases:
  "(d::nat) < 10 \<Longrightarrow> d = 0 \<or> d = 1 \<or> d = 2 \<or> d = 3 \<or> d = 4 \<or> d = 5 \<or> d = 6 \<or> d = 7 \<or> d = 8 \<or> d = 9"
  by arith

lemma chinese_numbers_cn_digit [simp]: "d < 10 \<Longrightarrow> chinese_numbers (cn_digit d) = Some (CnNum d)"
  by (drule less_10_cases) (elim disjE; simp add: cn_digit_def chinese_numbers_def chinese_numbers_table_def)

lemma cn_digit_not_dian [simp]: "d < 10 \<Longrightarrow> cn_digit d \<noteq> DIAN"
  by (drule less_10_cases) (elim disjE; simp add: cn_digit_def)

lemma unit_exp_cases: "1 \<le> (e::nat) \<Longrightarrow> e \<le> 4 \<Longrightarrow> e = 1 \<or> e = 2 \<or> e = 3 \<or> e = 4"
  by arith

lemma chinese_numbers_cn_unit [simp]:
  "1 \<le> e \<Longrightarrow> e \<le> 4 \<Longrightarrow> chinese_numbers (cn_unit e) = Some (CnNum (10 ^ e))"
  by (drule (1) unit_exp_cases) (elim disjE; simp add: cn_unit_def chinese_numbers_def chinese_numbers_table_def)

lemma cn_unit_not_dian [simp]: "1 \<le> e \<Longrightarrow> e \<le> 4 \<Longrightarrow> cn_unit e \<noteq> DIAN"
  by (drule (1) unit_exp_cases) (elim disjE; simp add: cn_unit_def)

lemma chinese_numbers_dot: "chinese_numbers c = Some CnDot \<Longrightarrow> c = DIAN"
  by (simp add: chinese_numbers_def chinese_numbers_table_def split: if_splits)

subsection \<open>Steps of the loop\<close>

lemma cn_step_fraction_digit:
  "isDecimal st \<Longrightarrow> d < 10 \<Longrightarrow> cn_step st (cn_digit d) = st\<lparr>decimal := decimal st * 10 + d\<rparr>"
  by (simp add: cn_step_def)

lemma cn_step_int_digit:
  "\<not> isDecimal st \<Longrightarrow> d < 10 \<Longrightarrow> cn_step st (cn_digit d) = st\<lparr>temp := d\<rparr>"
  by (simp add: cn_step_def)

lemma cn_step_int_unit:
  "\<not> isDecimal st \<Longrightarrow> 1 \<le> e \<Longrightarrow> e \<le> 4 \<Longrightarrow>
   cn_step st (cn_unit e) =
     (let t = (if temp st = 0 then 1 else temp st) in
      if lastUnit st < 10 ^ e
      then st\<lparr>result := (result st + t) * 10 ^ e, temp := 0, lastUnit := 10 ^ e\<rparr>
      else st\<lparr>result := result st + t * 10 ^ e, temp := 0, lastUnit := 10 ^ e\<rparr>)"
  using power_increasing [of 1 e "10::nat"] by (simp add: cn_step_def Let_def)

lemma cn_step_keeps_fraction:
  "c \<noteq> DIAN \<Longrightarrow> \<not> isDecimal st \<Longrightarrow> \<not> isDecimal (cn_step st c) \<and> decimal (cn_step st c) = decimal st"
  by (simp add: cn_step_def Let_def split: option.split cn_entry.split)

lemma foldl_cn_step_no_dian:
  "DIAN \<notin> set xs \<Longrightarrow> \<not> isDecimal st \<Longrightarrow>
   \<not> isDecimal (foldl cn_step st xs) \<and> decimal (foldl cn_step st xs) = decimal st"
  by (induction xs arbitrary: st) (simp_all add: cn_step_keeps_fraction)

lemma foldl_cn_step_fraction:
  "isDecimal st \<Longrightarrow> list_all (\<lambda>d. d < 10) ds \<Longrightarrow>
   foldl cn_step st (map cn_digit ds) = st\<lparr>decimal := decimal st * 10 ^ length ds + horner ds\<rparr>"
proof (induction ds arbitrary: st)
  case Nil
  then show ?case by (simp add: horner_def)
next
  case (Cons d ds)
  then have "foldl cn_step st (map cn_digit (d # ds))
      = foldl cn_step (st\<lparr>decimal := decimal st * 10 + d\<rparr>) (map cn_digit ds)"
    by (simp add: cn_step_fraction_digit)
  also have "\<dots> = st\<lparr>decimal := (decimal st * 10 + d) * 10 ^ length ds + horner ds\<rparr>"
    using Cons by simp
  finally show ?case by (simp add: horner_Cons algebra_simps)
qed

lemma parse_chinese_number_no_dian:
  "DIAN \<notin> set xs \<Longrightarrow>
   parse_chinese_number xs = real (result (foldl cn_step cn_init xs) + temp (foldl cn_step cn_init xs))"
  using foldl_cn_step_no_dian [of xs cn_init] by (simp add: parse_chinese_number_def cn_init_def Let_def)

text \<open>
  Reading the digits below a unit already seen: the loop adds their value to \<open>result\<close> and
  \<open>temp\<close> and never enters the fraction.
\<close>

lemma foldl_cn_tail:
  assumes "\<not> isDecimal st" and "temp st = 0" and "10 ^ e < lastUnit st" and "r < 10 ^ Suc e"
    and "e \<le> 3"
  shows "\<not> isDecimal (foldl cn_step st (cn_tail r e z)) \<and>
         decimal (foldl cn_step st (cn_tail r e z)) = decimal st \<and>
         result (foldl cn_step st (cn_tail r e z)) + temp (foldl cn_step st (cn_tail r e z)) = result st + r"
  using assms
proof (induction e arbitrary: st r z)
  case 0
  then show ?case by (cases z) (simp_all add: cn_step_int_digit)
next
  case (Suc e)
  let ?d = "r div 10 ^ Suc e" and ?r' = "r mod 10 ^ Suc e"
  have d10: "?d < 10" using Suc.prems(4) by (simp add: div_less_iff_less_mult mult.commute)
  have r': "?r' < 10 ^ Suc e" by simp
  show ?case
  proof (cases "?d = 0")
    case True
    have "10 ^ e < lastUnit st"
      using Suc.prems(3) power_strict_increasing [of e "Suc e" "10::nat"] by simp
    moreover have "?r' = r" using True div_mult_mod_eq [of r "10 ^ Suc e"] by simp
    ultimately show ?thesis using True Suc.prems Suc.IH [of st ?r' True] r' by simp
  next
    case False
    let ?st0 = "foldl cn_step st ((if z then [cn_digit 0] else []) @ [cn_digit ?d])"
    have st0: "?st0 = st\<lparr>temp := ?d\<rparr>"
      using Suc.prems(1) d10 by (cases z) (simp_all add: cn_step_int_digit)
    let ?st1 = "st\<lparr>result := result st + ?d * 10 ^ Suc e, temp := 0, lastUnit := 10 ^ Suc e\<rparr>"
    have st1: "cn_step ?st0 (cn_unit (Suc e)) = ?st1"
      using st0 Suc.prems(1,3,5) False by (simp add: cn_step_int_unit Let_def)
    have ih: "\<not> isDecimal (foldl cn_step ?st1 (cn_tail ?r' e False)) \<and>
         decimal (foldl cn_step ?st1 (cn_tail ?r' e False)) = decimal ?st1 \<and>
         result (foldl cn_step ?st1 (cn_tail ?r' e False)) + temp (foldl cn_step ?st1 (cn_tail ?r' e False))
           = result ?st1 + ?r'"
      using Suc.prems(1,5) r' by (intro Suc.IH) simp_all
    have "cn_tail r (Suc e) z = ((if z then [cn_digit 0] else []) @ [cn_digit ?d]) @ cn_unit (Suc e) # cn_tail ?r' e False"
      using False by (simp add: Let_def)
    then have "foldl cn_step st (cn_tail r (Suc e) z) = foldl cn_step ?st1 (cn_tail ?r' e False)"
      using st1 by (simp only: foldl_append foldl_Cons)
    moreover have "result st + ?d * 10 ^ Suc e + ?r' = result st + r"
      by (simp add: mult.commute)
    ultimately show ?thesis using ih by simp
  qed
qed

lemma foldl_cn_lead:
  "0 < d \<Longrightarrow> d < 10 \<Longrightarrow> 1 \<le> e \<Longrightarrow> e \<le> 4 \<Longrightarrow>
   foldl cn_step cn_init [cn_digit d, cn_unit e] = cn_init\<lparr>result := d * 10 ^ e, lastUnit := 10 ^ e\<rparr>"
  using one_less_power [of "10::nat" e]
  by (simp add: cn_init_def cn_step_int_digit cn_step_int_unit Let_def)

subsection \<open>Arabic digit strings\<close>

lemma length_ascii_digits [simp]: "length (ascii_digits ds) = length ds"
  by (simp add: ascii_digits_def)

lemma digits_value_snoc: "digits_value (xs @ [c]) = 10 * digits_value xs + digit_val c"
  by (simp add: digits_value_def)

lemma digits_value_ascii_digits: "digits_value (ascii_digits ds) = horner ds"
  by (induction ds rule: rev_induct)
    (simp_all add: ascii_digits_def digits_value_def horner_def digit_val_def)

lemma js_nat_str_digits: "list_all is_ascii_digit (js_nat_str n)"
proof (induction n rule: js_nat_str.induct)
  case (1 n)
  have "is_ascii_digit (48 + n mod 10)"
    using mod_less_divisor [of 10 n] by (simp add: is_ascii_digit_def)
  moreover have "n < 10 \<Longrightarrow> is_ascii_digit (48 + n)"
    by (simp add: is_ascii_digit_def)
  ultimately show ?case using "1" by (subst js_nat_str.simps) simp
qed

lemma js_nat_str_nonempty: "js_nat_str n \<noteq> []"
  by (subst js_nat_str.simps) simp

lemma digits_value_js_nat_str: "digits_value (js_nat_str n) = n"
proof (induction n rule: js_nat_str.induct)
  case (1 n)
  show ?case
  proof (cases "n < 10")
    case True
    then show ?thesis by (subst js_nat_str.simps) (simp add: digits_value_def digit_val_def)
  next
    case False
    then have "digits_value (js_nat_str n) = 10 * (n div 10) + n mod 10"
      using "1.IH" by (subst js_nat_str.simps) (simp add: digits_value_snoc digit_val_def)
    then show ?thesis by simp
  qed
qed

lemma ascii_digits_digits: "list_all (\<lambda>d. d < 10) ds \<Longrightarrow> list_all is_ascii_digit (ascii_digits ds)"
  by (induction ds) (simp_all add: ascii_digits_def is_ascii_digit_def)

lemma filter_space_digit_dot_id:
  "list_all is_digit_or_dot s \<Longrightarrow> filter (\<lambda>c. \<not> is_js_space c) s = s"
  by (induction s) (auto simp: is_digit_or_dot_def is_js_space_def is_ascii_digit_def)

lemma filter_digit_dot_id: "list_all is_digit_or_dot s \<Longrightarrow> filter is_digit_or_dot s = s"
  by (induction s) auto

lemma digit_is_digit_or_dot: "list_all is_ascii_digit s \<Longrightarrow> list_all is_digit_or_dot s"
  by (induction s) (simp_all add: is_digit_or_dot_def)

lemma dot_not_digit [simp]: "\<not> is_ascii_digit DOT"
  by (simp add: is_ascii_digit_def)

lemma js_parse_float_digits:
  "ip \<noteq> [] \<Longrightarrow> list_all is_ascii_digit ip \<Longrightarrow>
   js_parse_float ip = Some (real (digits_value ip))"
  by (simp add: js_parse_float_def list_all_iff takeWhile_eq_all_conv [THEN iffD2]
      dropWhile_eq_Nil_conv [THEN iffD2])

lemma js_parse_float_digits_dot_digits:
  "ip \<noteq> [] \<Longrightarrow> list_all is_ascii_digit ip \<Longrightarrow> list_all is_ascii_digit fp \<Longrightarrow>
   js_parse_float (ip @ DOT # fp) =
     Some (real (digits_value ip) + real (digits_value fp) / 10 ^ length fp)"
  by (simp add: js_parse_float_def list_all_iff takeWhile_eq_all_conv [THEN iffD2])

lemma js_parse_float_nonneg: "js_parse_float s = Some v \<Longrightarrow> 0 \<le> v"
  by (auto simp: js_parse_float_def Let_def split: list.splits if_splits)

lemma parse_number_nonneg: "0 \<le> parse_number t"
  by (auto simp: parse_number_def parse_arabic_number_def parse_chinese_number_def Let_def
      js_parse_float_nonneg split: option.split)

subsection \<open>Properties of the parsers\<close>

text \<open>
  C27: after the spoken decimal point, the digits are accumulated as one integer and divided
  by ten to the number of its decimal digits: the integer part's value plus \<open>0.f\<dots>\<close> when
  the first fraction digit is not zero, but zeros right after the point are lost, so that
  "san dian ling wu" (3.05) is read as 3.5.
\<close>

theorem parse_chinese_number_fraction:
  assumes "DIAN \<notin> set xs" and "list_all (\<lambda>d. d < 10) (f # fs)" and "0 < f"
  shows "parse_chinese_number (xs @ DIAN # map cn_digit (replicate z 0 @ f # fs)) =
           parse_chinese_number xs + real (horner (f # fs)) / 10 ^ length (f # fs)"
proof -
  let ?st = "foldl cn_step cn_init xs"
  have int: "\<not> isDecimal ?st" "decimal ?st = 0"
    using foldl_cn_step_no_dian [OF assms(1), of cn_init] by (simp_all add: cn_init_def)
  have digits: "list_all (\<lambda>d. d < 10) (replicate z 0 @ f # fs)"
    using assms(2) by (auto simp: list_all_iff)
  have "foldl cn_step cn_init (xs @ DIAN # map cn_digit (replicate z 0 @ f # fs)) =
          ?st\<lparr>isDecimal := True, decimal := horner (f # fs)\<rparr>"
    using foldl_cn_step_fraction [of "?st\<lparr>isDecimal := True\<rparr>", OF _ digits] int
    by (simp add: cn_step_def)
  moreover have "0 < horner (f # fs)"
    using assms(3) by (simp add: horner_Cons)
  ultimately show ?thesis
    using dec_len_horner [OF assms(2,3)] parse_chinese_number_no_dian [OF assms(1)]
    by (simp add: parse_chinese_number_def Let_def)
qed

theorem parse_chinese_number_fraction_witness:
  "DIAN \<notin> set [SAN] \<and> list_all (\<lambda>d. d < 10) [5::nat] \<and> (0::nat) < 5 \<and>
   parse_chinese_number ([SAN] @ DIAN # map cn_digit (replicate 1 0 @ [5])) =
     parse_chinese_number [SAN] + real (horner [5]) / 10 ^ length [5::nat]"
  using parse_chinese_number_fraction [of "[SAN]" 5 "[]" 1] by simp

text \<open>
  C25: \<open>parseChineseNumber\<close> inverts the standard Chinese reading of every number below
  \<open>10 ^ 4\<close>, zeros included: "yi qian ling er shi" is 1020, "er bai ling wu" 205, "shi wu" 15.
\<close>

theorem parse_chinese_number_cn_numeral:
  assumes "n < 10000"
  shows "parse_chinese_number (cn_numeral n) = real n"
proof -
  let ?f = "foldl cn_step cn_init (cn_numeral n)"
  have tail: "decimal (foldl cn_step st (cn_tail r e False)) = 0 \<and>
      result (foldl cn_step st (cn_tail r e False)) + temp (foldl cn_step st (cn_tail r e False)) = R + r"
    if "st = cn_init\<lparr>result := R, lastUnit := L\<rparr>" "10 ^ e < L" "r < 10 ^ Suc e" "e \<le> 2"
    for st r e R L
    using foldl_cn_tail [of st e r False] that by (simp add: cn_init_def)
  have "decimal ?f = 0 \<and> result ?f + temp ?f = n"
  proof -
    consider "n < 10" | "10 \<le> n" "n < 20" | "20 \<le> n" "n < 100" | "100 \<le> n" "n < 1000"
      | "1000 \<le> n" by linarith
    then show ?thesis
    proof cases
      case 1
      then show ?thesis by (simp add: cn_numeral_def cn_init_def cn_step_int_digit)
    next
      case 2
      have u: "foldl cn_step cn_init [cn_unit 1] = cn_init\<lparr>result := 10, lastUnit := 10\<rparr>"
        by (simp add: cn_init_def cn_step_int_unit)
      show ?thesis
        using 2 u tail [OF refl, of 0 10 "n - 10" 10] by (simp add: cn_numeral_def)
    next
      case 3
      have "foldl cn_step cn_init [cn_digit (n div 10), cn_unit 1] =
          cn_init\<lparr>result := (n div 10) * 10, lastUnit := 10\<rparr>"
        using 3 foldl_cn_lead [of "n div 10" 1] by simp
      then show ?thesis using 3 tail [OF refl, of 0 10 "n mod 10" "(n div 10) * 10"]
        by (simp add: cn_numeral_def)
    next
      case 4
      have "foldl cn_step cn_init [cn_digit (n div 100), cn_unit 2] =
          cn_init\<lparr>result := (n div 100) * 100, lastUnit := 100\<rparr>"
        using 4 foldl_cn_lead [of "n div 100" 2] by (simp add: div_less_iff_less_mult)
      then show ?thesis using 4 tail [OF refl, of 1 100 "n mod 100" "(n div 100) * 100"]
        by (simp add: cn_numeral_def)
    next
      case 5
      have "foldl cn_step cn_init [cn_digit (n div 1000), cn_unit 3] =
          cn_init\<lparr>result := (n div 1000) * 1000, lastUnit := 1000\<rparr>"
        using 5 assms foldl_cn_lead [of "n div 1000" 3] by (simp add: div_less_iff_less_mult)
      then show ?thesis using 5 tail [OF refl, of 2 1000 "n mod 1000" "(n div 1000) * 1000"]
        by (simp add: cn_numeral_def)
    qed
  qed
  then show ?thesis by (simp add: parse_chinese_number_def Let_def)
qed

theorem parse_chinese_number_cn_numeral_witness:
  "(1020::nat) < 10000 \<and> cn_numeral 1020 = [YI, QIAN, LING, ER, SHI] \<and>
   parse_chinese_number [YI, QIAN, LING, ER, SHI] = 1020 \<and>
   cn_numeral 35 = [SAN, SHI, WU] \<and> parse_chinese_number [SAN, SHI, WU] = 35"
proof -
  have a: "cn_numeral 1020 = [YI, QIAN, LING, ER, SHI]"
    by (simp add: cn_numeral_def cn_digit_def cn_unit_def numeral_2_eq_2)
  have b: "cn_numeral 35 = [SAN, SHI, WU]"
    by (simp add: cn_numeral_def cn_digit_def cn_unit_def)
  show ?thesis
    using parse_chinese_number_cn_numeral [of 1020] parse_chinese_number_cn_numeral [of 35] a b by simp
qed

text \<open>
  C26: a unit right after another unit of higher magnitude counts an implicit leading one:
  "d, 10^j, 10^k" with \<open>j < k\<close> is read as \<open>(d * 10^j + 1) * 10^k\<close>, so "er shi wan"
  (200000) is read as 210000.
\<close>

theorem parse_chinese_number_unit_after_unit:
  assumes "0 < d" and "d < 10" and "1 \<le> j" and "j < k" and "k \<le> 4"
  shows "parse_chinese_number [cn_digit d, cn_unit j, cn_unit k] = real ((d * 10 ^ j + 1) * 10 ^ k)"
proof -
  have "(10::nat) ^ j < 10 ^ k" using assms(4) by simp
  moreover have "(1::nat) < 10 ^ j" using assms(3) power_increasing [of 1 j "10::nat"] by simp
  ultimately show ?thesis
    using assms by (simp add: parse_chinese_number_def cn_init_def cn_step_int_digit
        cn_step_int_unit Let_def)
qed

theorem parse_chinese_number_unit_after_unit_witness:
  "(0::nat) < 2 \<and> (2::nat) < 10 \<and> (1::nat) \<le> 1 \<and> (1::nat) < 4 \<and> (4::nat) \<le> 4 \<and>
   parse_chinese_number [cn_digit 2, cn_unit 1, cn_unit 4] = 210000"
  using parse_chinese_number_unit_after_unit [of 2 1 4] by simp

text \<open>
  C28: \<open>parseArabicNumber\<close> inverts decimal printing: on the digits of \<open>n\<close>, optionally
  followed by a point and fraction digits \<open>fs\<close>, it returns \<open>n + 0.fs\<close>.
\<close>

theorem parse_arabic_number_roundtrip:
  assumes "list_all (\<lambda>d. d < 10) fs"
  shows "parse_arabic_number (js_nat_str n @ (if fs = [] then [] else DOT # ascii_digits fs)) =
           real n + real (horner fs) / 10 ^ length fs"
proof (cases "fs = []")
  case True
  then show ?thesis
    using js_nat_str_digits [of n] js_nat_str_nonempty [of n]
    by (simp add: parse_arabic_number_def filter_space_digit_dot_id filter_digit_dot_id
        digit_is_digit_or_dot js_parse_float_digits digits_value_js_nat_str horner_def)
next
  case False
  let ?s = "js_nat_str n @ DOT # ascii_digits fs"
  have all: "list_all is_digit_or_dot ?s"
    using js_nat_str_digits [of n] ascii_digits_digits [OF assms]
    by (simp add: digit_is_digit_or_dot is_digit_or_dot_def)
  have "js_parse_float ?s = Some (real n + real (horner fs) / 10 ^ length fs)"
    using js_nat_str_digits [of n] js_nat_str_nonempty [of n] ascii_digits_digits [OF assms]
    by (simp add: js_parse_float_digits_dot_digits digits_value_js_nat_str
        digits_value_ascii_digits)
  then have "parse_arabic_number ?s = real n + real (horner fs) / 10 ^ length fs"
    unfolding parse_arabic_number_def Let_def filter_space_digit_dot_id [OF all]
      filter_digit_dot_id [OF all] by simp
  with False show ?thesis by simp
qed

theorem parse_arabic_number_roundtrip_witness:
  "list_all (\<lambda>d. d < 10) [2, 5::nat] \<and>
   parse_arabic_number (js_nat_str 1 @ DOT # ascii_digits [2, 5]) = 1.25"
  using parse_arabic_number_roundtrip [of "[2, 5]" 1] by (simp add: horner_def)

end
