(* ===== verification/Negative_Sense.thy ===== *)
theory Negative_Sense
  imports Prelude
begin

text \<open>
  The negative-sign detector of \<open>processCommand\<close> (\<^verbatim>\<open>src/speech.js\<close>, lines
  228--238): the array \<open>negativeIndicators\<close>, written out entry by entry in the source's
  order (duplicates included), and the test
  \<open>negativeIndicators.some(i => transcript.toLowerCase().includes(i.toLowerCase()))\<close>.
  The main lemma shows that the list behaves as a plain set of 67 single characters plus
  the Latin syllable "fu": the six two-character entries and the duplicates are redundant.
\<close>

definition negative_indicators :: "jstring list" where
  "negative_indicators =
     [[0x8D1F], [0x4ED8], [0x590D], [0x5E9C], [0x7236], [0x8179], [0x8D74], [0x5BCC], [0x526F],
      [0x5987], [0x629A], [0x8F85], [0x4FEF], [0x65A7], [0x91DC], [0x812F], [0x8150], [0x8986],
      [0x8D4B], [0x5490], [0x9644], [0x9A78], [0x6C1F], [0x4F0F], [0x6276], [0x6D6E], [0x7B26],
      [0x8299], [0x82FB], [0x8760], [0x51EB], [0x5B75], [0x6577], [0x80A4], [0x9EB8], [0x670D],
      [0x798F], [0x5E45], [0x5E9C], [0x8F90], [0x876E], [0x9EFC], [0x5F17], [0x62C2], [0x832F],
      [0x6C1F], [0x6874], [0x6DAA], [0x83D4], [0x86A8], [0x7EC2], [0x7ECB], [0x8300], [0x90DB],
      [0x8274], [0x62CA], [0x9EFB], [0x8342], [0x82BE], [0x5490], [0x8D59], [0x590D], [0x99A5],
      [0x875C], [0x86B9], [0x8709], [0x876E], [0x9C8B], [0x9CC6], [0x9CFA], [0x9B92], [0x9D69],
      [0x8D1F, 0x7684], [0x4ED8, 0x7684], [0x590D, 0x7684], [0x8D1F, 0x5F97], [0x4ED8, 0x5F97],
      [0x590D, 0x5F97], js_str ''fu'']"

definition has_negative_indicator :: "jstring \<Rightarrow> bool" where
  "has_negative_indicator transcript =
     list_ex (\<lambda>indicator. js_includes (js_to_lower transcript) (js_to_lower indicator))
       negative_indicators"

text \<open>The distinct single-character homophones of the list, in order of first occurrence.\<close>

definition fu_homophones :: "jchar list" where
  "fu_homophones =
     [0x8D1F, 0x4ED8, 0x590D, 0x5E9C, 0x7236, 0x8179, 0x8D74, 0x5BCC, 0x526F, 0x5987, 0x629A,
      0x8F85, 0x4FEF, 0x65A7, 0x91DC, 0x812F, 0x8150, 0x8986, 0x8D4B, 0x5490, 0x9644, 0x9A78,
      0x6C1F, 0x4F0F, 0x6276, 0x6D6E, 0x7B26, 0x8299, 0x82FB, 0x8760, 0x51EB, 0x5B75, 0x6577,
      0x80A4, 0x9EB8, 0x670D, 0x798F, 0x5E45, 0x8F90, 0x876E, 0x9EFC, 0x5F17, 0x62C2, 0x832F,
      0x6874, 0x6DAA, 0x83D4, 0x86A8, 0x7EC2, 0x7ECB, 0x8300, 0x90DB, 0x8274, 0x62CA, 0x9EFB,
      0x8342, 0x82BE, 0x8D59, 0x99A5, 0x875C, 0x86B9, 0x8709, 0x9C8B, 0x9CC6, 0x9CFA, 0x9B92,
      0x9D69]"

lemma to_lower_char_high: "128 \<le> c \<Longrightarrow> to_lower_char c = c"
  by (simp add: to_lower_char_def)

lemma to_lower_char_eq_high: "128 \<le> c \<Longrightarrow> to_lower_char x = c \<longleftrightarrow> x = c"
  by (auto simp: to_lower_char_def split: if_splits)

lemma mem_js_to_lower_high [simp]: "128 \<le> c \<Longrightarrow> c \<in> set (js_to_lower t) \<longleftrightarrow> c \<in> set t"
proof -
  have "c \<in> set (js_to_lower t) \<longleftrightarrow> (\<exists>x \<in> set t. to_lower_char x = c)"
    by (auto simp: js_to_lower_def)
  also assume "128 \<le> c"
  then have "(\<exists>x \<in> set t. to_lower_char x = c) \<longleftrightarrow> c \<in> set t"
    by (simp add: to_lower_char_eq_high)
  finally show ?thesis .
qed

lemma js_to_lower_high [simp]: "list_all (\<lambda>c. 128 \<le> c) s \<Longrightarrow> js_to_lower s = s"
  by (induction s) (simp_all add: js_to_lower_def to_lower_char_high)

lemma js_includes_pair: "js_includes s [c, d] \<Longrightarrow> c \<in> set s"
  using js_includes_append_right [of s "[c]" "[d]"] by simp

text \<open>
  C29: the 79-entry homophone list is equivalent to a test for one of 67 characters anywhere in
  the transcript, or for the syllable "fu" in any letter case.
\<close>

theorem has_negative_indicator_iff:
  "has_negative_indicator t \<longleftrightarrow>
     list_ex (\<lambda>c. c \<in> set t) fu_homophones \<or> js_includes (js_to_lower t) (js_str ''fu'')"
proof -
  have lower_fu: "js_to_lower (js_str ''fu'') = js_str ''fu''"
    by (simp add: js_str_def js_to_lower_def to_lower_char_def)
  show ?thesis
    unfolding has_negative_indicator_def negative_indicators_def fu_homophones_def
    by (auto simp: lower_fu dest: js_includes_pair)
qed

end
