(* ===== verification/Command_Extractor.thy ===== *)
theory Command_Extractor
  imports Numeral_Parser Negative_Sense
begin

text \<open>
  The command recognition of \<open>processCommand\<close> (\<^verbatim>\<open>src/speech.js\<close>, lines 201--259).
  The source tests three patterns in order: the distance expression
  \<open>/.*?([C]+(?:P[D]+)?|\d+(?:\.\d+)?)\s*M/\<close>, the angle expression (the same with
  \<open>\s*[UV]\<close> at the end), and the words for "calculate".  Here \<open>C\<close> is the class of
  Chinese digits, the four units and \<open>\d\<close>, \<open>D\<close> the Chinese digits and \<open>\d\<close>,
  \<open>P\<close> the spoken point \<open>DIAN\<close>, \<open>M\<close> the metre sign \<open>MI\<close>, and \<open>U\<close>,
  \<open>V\<close> the degree word \<open>DU\<close> and the degree sign.

  \<open>String.prototype.match\<close> with a non-global expression runs the ECMAScript matcher at
  positions 0, 1, \<dots> and returns the first match; within a position the matcher backtracks
  in a fixed order: greedy quantifiers try the longest repetition first, an optional group
  is tried before its absence, the left alternative before the right one, and the lazy
  \<open>.*?\<close> tries the shortest prefix first (and cannot cross a line terminator).  The model
  enumerates the candidate captures of the group at a position in exactly this order
  (\<open>group_candidates\<close>) and takes the first whose remainder matches \<open>\s*unit\<close>
  (\<open>match_at\<close>); \<open>lazy_dot\<close> and \<open>regex_exec\<close> add the lazy prefix and the
  scan over start positions.  The result is the capture of group 1.

  \<open>extract_command\<close> is the abstract contract the specification gives this component
  (a \<open>command\<close> value or none); the effects the source performs for each command are
  modelled with the handler state in \<open>Device_Arbiter\<close>.
\<close>

subsection \<open>Character classes\<close>

definition is_cn_numeral_char :: "jchar \<Rightarrow> bool" where
  "is_cn_numeral_char c \<longleftrightarrow>
     c \<in> {LING, YI, ER, SAN, SI, WU, LIU, QI, BA, JIU, SHI, BAI, QIAN, WAN} \<or> is_ascii_digit c"

definition is_cn_fraction_char :: "jchar \<Rightarrow> bool" where
  "is_cn_fraction_char c \<longleftrightarrow>
     c \<in> {LING, YI, ER, SAN, SI, WU, LIU, QI, BA, JIU} \<or> is_ascii_digit c"

definition is_distance_unit :: "jchar \<Rightarrow> bool" where
  "is_distance_unit c \<longleftrightarrow> c = MI"

definition is_angle_unit :: "jchar \<Rightarrow> bool" where
  "is_angle_unit c \<longleftrightarrow> c = DU \<or> c = DEGREE_SIGN"

subsection \<open>Backtracking order of the quantifiers\<close>

text \<open>
  \<open>P+\<close> (greedy) at the front of \<open>xs\<close>: the splits \<open>(matched, rest)\<close> from the longest
  run of \<open>P\<close> down to one element.  \<open>P*\<close>: the same down to the empty match.
\<close>

definition plus_splits :: "(jchar \<Rightarrow> bool) \<Rightarrow> jstring \<Rightarrow> (jstring \<times> jstring) list" where
  "plus_splits P xs =
     map (\<lambda>k. (take k xs, drop k xs)) (rev [1..<Suc (length (takeWhile P xs))])"

definition star_splits :: "(jchar \<Rightarrow> bool) \<Rightarrow> jstring \<Rightarrow> (jstring \<times> jstring) list" where
  "star_splits P xs =
     map (\<lambda>k. (take k xs, drop k xs)) (rev [0..<Suc (length (takeWhile P xs))])"

text \<open>
  The optional group \<open>(?:sep S+)?\<close> after a run \<open>run\<close> with remainder \<open>rest\<close>:
  the splits that take it (longest fraction first); then \<open>R+(?:sep S+)?\<close>: for every
  split of \<open>R+\<close>, first the splits that take the optional group, then the one that
  skips it.
\<close>

definition sep_group_splits ::
  "jchar \<Rightarrow> (jchar \<Rightarrow> bool) \<Rightarrow> jstring \<Rightarrow> jstring \<Rightarrow> (jstring \<times> jstring) list" where
  "sep_group_splits sep S run rest =
     (case rest of
        c # rest' \<Rightarrow>
          if c = sep then map (\<lambda>(fr, rest''). (run @ c # fr, rest'')) (plus_splits S rest')
          else []
      | [] \<Rightarrow> [])"

definition opt_fraction_splits ::
  "(jchar \<Rightarrow> bool) \<Rightarrow> jchar \<Rightarrow> (jchar \<Rightarrow> bool) \<Rightarrow> jstring \<Rightarrow> (jstring \<times> jstring) list" where
  "opt_fraction_splits R sep S xs =
     concat (map (\<lambda>(run, rest). sep_group_splits sep S run rest @ [(run, rest)]) (plus_splits R xs))"

text \<open>Group 1: the Chinese alternative before the Arabic one.\<close>

definition group_candidates :: "jstring \<Rightarrow> (jstring \<times> jstring) list" where
  "group_candidates xs =
     opt_fraction_splits is_cn_numeral_char DIAN is_cn_fraction_char xs
     @ opt_fraction_splits is_ascii_digit DOT is_ascii_digit xs"

text \<open>\<open>\s*unit\<close>: some number of blanks (greedy, so the longest first), then a unit.\<close>

definition unit_tail :: "(jchar \<Rightarrow> bool) \<Rightarrow> jstring \<Rightarrow> bool" where
  "unit_tail unit_ok rest =
     list_ex (\<lambda>(ws, r). case r of c # _ \<Rightarrow> unit_ok c | [] \<Rightarrow> False) (star_splits is_js_space rest)"

definition match_at :: "(jchar \<Rightarrow> bool) \<Rightarrow> jstring \<Rightarrow> jstring option" where
  "match_at unit_ok xs =
     map_option fst (find (\<lambda>(cap, rest). unit_tail unit_ok rest) (group_candidates xs))"

text \<open>\<open>.*?\<close> from one start position: the shortest prefix first, never past a line terminator.\<close>

fun lazy_dot :: "(jchar \<Rightarrow> bool) \<Rightarrow> jstring \<Rightarrow> jstring option" where
  "lazy_dot unit_ok [] = match_at unit_ok []"
| "lazy_dot unit_ok (c # cs) =
     (case match_at unit_ok (c # cs) of
        Some cap \<Rightarrow> Some cap
      | None \<Rightarrow> if is_line_terminator c then None else lazy_dot unit_ok cs)"

text \<open>\<open>transcript.match(re)[1]\<close>, with \<open>None\<close> for a \<open>null\<close> result.\<close>

fun regex_exec :: "(jchar \<Rightarrow> bool) \<Rightarrow> jstring \<Rightarrow> jstring option" where
  "regex_exec unit_ok [] = lazy_dot unit_ok []"
| "regex_exec unit_ok (c # cs) =
     (case lazy_dot unit_ok (c # cs) of
        Some cap \<Rightarrow> Some cap
      | None \<Rightarrow> regex_exec unit_ok cs)"

subsection \<open>The command a transcript denotes\<close>

datatype command = SetDistance real | SetAngle real | TriggerCalculation

definition calc_words :: jstring where
  "calc_words = [JI, SUAN]"

definition calc_angle_words :: jstring where
  "calc_angle_words = [JI, SUAN, JIAO, DU]"

definition signed_angle :: "jstring \<Rightarrow> real \<Rightarrow> real" where
  "signed_angle transcript angle =
     (if has_negative_indicator transcript then - \<bar>angle\<bar> else angle)"

definition extract_command :: "jstring \<Rightarrow> command option" where
  "extract_command transcript =
     (case regex_exec is_distance_unit transcript of
        Some distanceText \<Rightarrow> Some (SetDistance (parse_number distanceText))
      | None \<Rightarrow>
          (case regex_exec is_angle_unit transcript of
             Some angleText \<Rightarrow> Some (SetAngle (signed_angle transcript (parse_number angleText)))
           | None \<Rightarrow>
               if js_includes transcript calc_words \<or> js_includes transcript calc_angle_words
               then Some TriggerCalculation else None))"

subsection \<open>Reference semantics of the expressions\<close>

text \<open>
  The language of group 1, \<open>R+(?:sep S+)?\<close> for each alternative, and the search for
  the leftmost position at which the group and \<open>\s*unit\<close> match, ignoring line
  terminators.
\<close>

definition opt_fraction_word :: "(jchar \<Rightarrow> bool) \<Rightarrow> jchar \<Rightarrow> (jchar \<Rightarrow> bool) \<Rightarrow> jstring \<Rightarrow> bool" where
  "opt_fraction_word R sep S w \<longleftrightarrow>
     (\<exists>a b. a \<noteq> [] \<and> list_all R a \<and> (w = a \<or> (b \<noteq> [] \<and> list_all S b \<and> w = a @ sep # b)))"

definition group_word :: "jstring \<Rightarrow> bool" where
  "group_word w \<longleftrightarrow>
     opt_fraction_word is_cn_numeral_char DIAN is_cn_fraction_char w
     \<or> opt_fraction_word is_ascii_digit DOT is_ascii_digit w"

fun first_match :: "(jchar \<Rightarrow> bool) \<Rightarrow> jstring \<Rightarrow> jstring option" where
  "first_match unit_ok [] = match_at unit_ok []"
| "first_match unit_ok (c # cs) =
     (case match_at unit_ok (c # cs) of
        Some cap \<Rightarrow> Some cap
      | None \<Rightarrow> first_match unit_ok cs)"

subsection \<open>Splits\<close>

lemma take_prefix_takeWhile:
  "k \<le> length (takeWhile P xs) \<Longrightarrow> take k xs = take k (takeWhile P xs)"
  by (metis min.absorb1 take_take takeWhile_eq_take)

lemma list_all_take_takeWhile: "list_all P (take k (takeWhile P xs))"
  by (metis list_all_iff set_takeWhileD in_set_takeD)

lemma plus_splits_sound:
  assumes "(a, r) \<in> set (plus_splits P xs)"
  shows "xs = a @ r \<and> a \<noteq> [] \<and> list_all P a"
proof -
  from assms obtain k where "k \<in> set (rev [1..<Suc (length (takeWhile P xs))])"
    and a: "a = take k xs" and r: "r = drop k xs"
    by (auto simp: plus_splits_def simp del: upt_Suc)
  then have k: "1 \<le> k" "k \<le> length (takeWhile P xs)" by auto
  have "k \<le> length xs" using k(2) length_takeWhile_le le_trans by blast
  then have "a \<noteq> []" using k(1) a by auto
  moreover have "list_all P a"
    using a take_prefix_takeWhile [OF k(2)] list_all_take_takeWhile by simp
  ultimately show ?thesis using a r by simp
qed

lemma star_splits_sound:
  assumes "(a, r) \<in> set (star_splits P xs)"
  shows "xs = a @ r \<and> list_all P a"
proof -
  from assms obtain k where "k \<in> set (rev [0..<Suc (length (takeWhile P xs))])"
    and a: "a = take k xs" and r: "r = drop k xs"
    by (auto simp: star_splits_def simp del: upt_Suc)
  then have k: "k \<le> length (takeWhile P xs)" by auto
  have "list_all P a"
    using a take_prefix_takeWhile [OF k] list_all_take_takeWhile by simp
  then show ?thesis using a r by simp
qed

lemma length_takeWhile_append_all:
  "list_all P a \<Longrightarrow> length a \<le> length (takeWhile P (a @ r))"
  by (simp add: takeWhile_append2 list_all_iff)

lemma plus_splits_complete:
  assumes "a \<noteq> []" and "list_all P a"
  shows "(a, r) \<in> set (plus_splits P (a @ r))"
proof -
  have "length a \<le> length (takeWhile P (a @ r))"
    using assms(2) by (rule length_takeWhile_append_all)
  moreover have "1 \<le> length a" using assms(1) by (simp add: Suc_le_eq)
  ultimately have "length a \<in> set (rev [1..<Suc (length (takeWhile P (a @ r)))])"
    by (simp del: upt_Suc)
  then have "(take (length a) (a @ r), drop (length a) (a @ r)) \<in> set (plus_splits P (a @ r))"
    unfolding plus_splits_def set_map by (rule imageI)
  then show ?thesis by simp
qed

lemma star_splits_complete:
  assumes "list_all P a"
  shows "(a, r) \<in> set (star_splits P (a @ r))"
proof -
  have "length a \<le> length (takeWhile P (a @ r))"
    using assms by (rule length_takeWhile_append_all)
  then have "length a \<in> set (rev [0..<Suc (length (takeWhile P (a @ r)))])"
    by (simp del: upt_Suc)
  then have "(take (length a) (a @ r), drop (length a) (a @ r)) \<in> set (star_splits P (a @ r))"
    unfolding star_splits_def set_map by (rule imageI)
  then show ?thesis by simp
qed

lemma sep_group_splits_sound:
  "(cap, r) \<in> set (sep_group_splits sep S run rest) \<Longrightarrow>
   \<exists>fr. fr \<noteq> [] \<and> list_all S fr \<and> cap = run @ sep # fr \<and> rest = sep # fr @ r"
  by (cases rest) (auto simp: sep_group_splits_def split: if_splits dest!: plus_splits_sound)

lemma sep_group_splits_complete:
  "fr \<noteq> [] \<Longrightarrow> list_all S fr \<Longrightarrow>
   (run @ sep # fr, r) \<in> set (sep_group_splits sep S run (sep # fr @ r))"
  by (auto simp: sep_group_splits_def image_iff intro!: bexI [OF _ plus_splits_complete])

lemma opt_fraction_splits_sound:
  assumes "(cap, rest) \<in> set (opt_fraction_splits R sep S xs)"
  shows "xs = cap @ rest \<and> opt_fraction_word R sep S cap"
proof -
  from assms obtain run rest0 where rr: "(run, rest0) \<in> set (plus_splits R xs)"
    and c: "(cap, rest) \<in> set (sep_group_splits sep S run rest0) \<or> (cap, rest) = (run, rest0)"
    by (auto simp: opt_fraction_splits_def)
  from rr have xs: "xs = run @ rest0" and run: "run \<noteq> []" "list_all R run"
    by (auto dest: plus_splits_sound)
  from c show ?thesis
  proof
    assume "(cap, rest) \<in> set (sep_group_splits sep S run rest0)"
    then obtain fr where "fr \<noteq> []" "list_all S fr" "cap = run @ sep # fr"
      "rest0 = sep # fr @ rest"
      by (blast dest: sep_group_splits_sound)
    with xs run show ?thesis by (auto simp: opt_fraction_word_def)
  next
    assume "(cap, rest) = (run, rest0)"
    with xs run show ?thesis by (auto simp: opt_fraction_word_def)
  qed
qed

lemma opt_fraction_splits_complete:
  assumes "opt_fraction_word R sep S cap"
  shows "(cap, rest) \<in> set (opt_fraction_splits R sep S (cap @ rest))"
proof -
  from assms obtain a b where a: "a \<noteq> []" "list_all R a"
    and cap: "cap = a \<or> (b \<noteq> [] \<and> list_all S b \<and> cap = a @ sep # b)"
    by (auto simp: opt_fraction_word_def)
  from cap show ?thesis
  proof
    assume "cap = a"
    with a show ?thesis
      by (auto simp: opt_fraction_splits_def intro!: bexI [OF _ plus_splits_complete])
  next
    assume b: "b \<noteq> [] \<and> list_all S b \<and> cap = a @ sep # b"
    then have "(cap, rest) \<in> set (sep_group_splits sep S a (sep # b @ rest))"
      by (auto intro: sep_group_splits_complete)
    moreover have "(a, sep # b @ rest) \<in> set (plus_splits R (cap @ rest))"
      using b a plus_splits_complete [of a R "sep # b @ rest"] by simp
    ultimately show ?thesis
      by (force simp: opt_fraction_splits_def)
  qed
qed

lemma group_candidates_sound:
  "(cap, rest) \<in> set (group_candidates xs) \<Longrightarrow> xs = cap @ rest \<and> group_word cap"
  by (auto simp: group_candidates_def group_word_def dest: opt_fraction_splits_sound)

lemma group_candidates_complete:
  "group_word cap \<Longrightarrow> (cap, rest) \<in> set (group_candidates (cap @ rest))"
  by (auto simp: group_candidates_def group_word_def intro: opt_fraction_splits_complete)

lemma unit_tail_sound:
  "unit_tail unit_ok rest \<Longrightarrow>
   \<exists>ws c r. rest = ws @ c # r \<and> list_all is_js_space ws \<and> unit_ok c"
  by (auto simp: unit_tail_def list_ex_iff split: list.splits dest!: star_splits_sound) blast

lemma unit_tail_complete:
  "list_all is_js_space ws \<Longrightarrow> unit_ok c \<Longrightarrow> unit_tail unit_ok (ws @ c # r)"
  by (auto simp: unit_tail_def list_ex_iff intro!: bexI [OF _ star_splits_complete])

lemma match_at_sound:
  "match_at unit_ok xs = Some cap \<Longrightarrow>
   \<exists>rest. xs = cap @ rest \<and> group_word cap \<and> unit_tail unit_ok rest"
  by (auto simp: match_at_def dest!: find_Some_mem group_candidates_sound)

lemma match_at_complete:
  "group_word cap \<Longrightarrow> unit_tail unit_ok rest \<Longrightarrow> match_at unit_ok (cap @ rest) \<noteq> None"
  by (auto simp: match_at_def find_None_iff dest: group_candidates_complete)

lemma lazy_dot_Some: "lazy_dot unit_ok xs = Some cap \<Longrightarrow> first_match unit_ok xs = Some cap"
  by (induction xs) (auto split: option.splits if_splits)

lemma first_match_sound:
  "first_match unit_ok xs = Some cap \<Longrightarrow> \<exists>pre suf. xs = pre @ suf \<and> match_at unit_ok suf = Some cap"
proof (induction xs)
  case Nil
  then show ?case by auto
next
  case (Cons c cs)
  show ?case
  proof (cases "match_at unit_ok (c # cs)")
    case None
    with Cons obtain pre suf where "cs = pre @ suf" "match_at unit_ok suf = Some cap" by auto
    then show ?thesis by (metis append_Cons)
  next
    case (Some cap')
    with Cons.prems show ?thesis by (metis append_Nil first_match.simps(2) option.simps(5))
  qed
qed

lemma first_match_complete:
  "match_at unit_ok suf \<noteq> None \<Longrightarrow> first_match unit_ok (pre @ suf) \<noteq> None"
proof (induction pre)
  case Nil
  then show ?case by (cases suf) (auto split: option.splits)
next
  case (Cons c pre)
  then show ?case by (auto split: option.splits)
qed

lemma lazy_dot_None_Cons: "lazy_dot unit_ok (c # cs) = None \<Longrightarrow> match_at unit_ok (c # cs) = None"
  by (auto split: option.splits)

lemmas extract_eval = extract_command_def match_at_def group_candidates_def
  opt_fraction_splits_def sep_group_splits_def plus_splits_def star_splits_def unit_tail_def
  is_cn_numeral_char_def is_cn_fraction_char_def is_distance_unit_def is_angle_unit_def
  js_string_simps calc_words_def calc_angle_words_def

text \<open>
  C30: scanning start positions and the lazy prefix, which cannot cross a line terminator,
  finds the same capture as trying every position from left to right: line terminators in a
  transcript never change what is extracted.
\<close>

theorem regex_exec_first_match: "regex_exec unit_ok xs = first_match unit_ok xs"
proof (induction xs)
  case Nil
  show ?case by simp
next
  case (Cons c cs)
  show ?case
  proof (cases "lazy_dot unit_ok (c # cs)")
    case None
    then have "match_at unit_ok (c # cs) = None" by (rule lazy_dot_None_Cons)
    with None Cons.IH show ?thesis by simp
  next
    case (Some cap)
    with lazy_dot_Some [OF Some] show ?thesis by simp
  qed
qed

text \<open>
  C23: what the expressions capture is a numeral of the pattern's group (Chinese digits and
  units with an optional spoken fraction, or Arabic digits with an optional decimal point)
  followed in the transcript by blanks and the unit.
\<close>

theorem regex_exec_sound:
  assumes "regex_exec unit_ok t = Some cap"
  shows "\<exists>pre ws c post. t = pre @ cap @ ws @ c # post \<and> group_word cap \<and>
           list_all is_js_space ws \<and> unit_ok c"
proof -
  from assms have "first_match unit_ok t = Some cap" by (simp add: regex_exec_first_match)
  then obtain pre suf where t: "t = pre @ suf" and m: "match_at unit_ok suf = Some cap"
    by (blast dest: first_match_sound)
  from m obtain rest where "suf = cap @ rest" "group_word cap" "unit_tail unit_ok rest"
    by (blast dest: match_at_sound)
  with t show ?thesis by (blast dest: unit_tail_sound)
qed

text \<open>
  C24: no phrase of the pattern is missed: whenever the transcript contains a numeral of the
  group followed by blanks and the unit, the expression matches.
\<close>

theorem regex_exec_complete:
  assumes "group_word cap" and "list_all is_js_space ws" and "unit_ok c"
  shows "regex_exec unit_ok (pre @ cap @ ws @ c # post) \<noteq> None"
proof -
  have "unit_tail unit_ok (ws @ c # post)" using assms(2,3) by (rule unit_tail_complete)
  with assms(1) have "match_at unit_ok (cap @ ws @ c # post) \<noteq> None"
    by (rule match_at_complete)
  then show ?thesis by (simp add: regex_exec_first_match first_match_complete)
qed

theorem regex_exec_sound_witness:
  "regex_exec is_distance_unit [0x8DDD, 0x79BB, 0x31, 0x35, 0x30, MI] = Some [0x31, 0x35, 0x30] \<and>
   (\<exists>pre ws c post. [0x8DDD, 0x79BB, 0x31, 0x35, 0x30, MI] = pre @ [0x31, 0x35, 0x30] @ ws @ c # post \<and>
      group_word [0x31, 0x35, 0x30] \<and> list_all is_js_space ws \<and> is_distance_unit c)"
proof -
  have h: "regex_exec is_distance_unit [0x8DDD, 0x79BB, 0x31, 0x35, 0x30, MI] = Some [0x31, 0x35, 0x30]"
    by (simp add: extract_eval)
  show ?thesis using regex_exec_sound [OF h] h by blast
qed

theorem regex_exec_complete_witness:
  "group_word [0x31, 0x35, 0x30] \<and> list_all is_js_space [] \<and> is_distance_unit MI \<and>
   regex_exec is_distance_unit ([0x8DDD, 0x79BB] @ [0x31, 0x35, 0x30] @ [] @ MI # []) \<noteq> None"
proof -
  have w: "group_word [0x31, 0x35, 0x30]"
    unfolding group_word_def opt_fraction_word_def
    by (rule disjI2, rule exI [of _ "[0x31, 0x35, 0x30]"], rule exI [of _ "[]"])
      (simp add: is_ascii_digit_def)
  have s: "list_all is_js_space ([] :: jstring)" by simp
  have u: "is_distance_unit MI" by (simp add: is_distance_unit_def)
  show ?thesis
    using regex_exec_complete [where unit_ok = is_distance_unit and c = MI
        and pre = "[0x8DDD, 0x79BB]" and post = "[]", OF w s u] w s u
    by simp
qed

lemmas parse_eval = parse_number_def is_arabic_text_def parse_arabic_number_def js_parse_float_def
  is_digit_or_dot_def digits_value_def digit_val_def parse_chinese_number_def cn_step_def cn_init_def
  chinese_numbers_def chinese_numbers_table_def dec_len.simps signed_angle_def
  has_negative_indicator_def negative_indicators_def

end
