(* ===== verification/Results_Reader.thy ===== *)
theory Results_Reader
  imports Numeral_Parser
begin

text \<open>
  The two patterns with which the results callback of \<open>checkAndCalculate\<close> reads the
  calculator's \<open>#results\<close> text (\<^verbatim>\<open>src/speech.js\<close>, lines 381--382):
  \<open>/L:?\s*(\d+\.?\d*)/\<close>, where the label \<open>L\<close> is "di she jiao du" (U+4F4E U+5C04
  U+89D2 U+5EA6, low firing angle) for the one and "gao she jiao du" (U+9AD8 U+5C04 U+89D2
  U+5EA6, high firing angle) for the other.  \<open>match\<close>
  without the \<open>g\<close> flag returns the first match from the leftmost position where one
  exists; \<open>results_search\<close> returns its capture group.

  At a fixed position the pattern has one match that ECMAScript's backtracking can return:
  \<open>:?\<close> and \<open>\s*\<close> are greedy and what follows them must start with a digit, so giving back
  a colon or a space never helps; \<open>\d+\.?\d*\<close> is greedy and nothing follows it, so its
  first (longest) choice succeeds.  \<open>label_match\<close> computes that match directly;
  \<open>label_match_iff\<close> states that it returns exactly the capture of the match the pattern
  describes, \<open>results_search_iff\<close> that the search returns the leftmost one.
\<close>

definition low_label :: jstring where
  "low_label = [0x4F4E, 0x5C04, 0x89D2, 0x5EA6]"  \<comment> \<open>low firing angle\<close>

definition high_label :: jstring where
  "high_label = [0x9AD8, 0x5C04, 0x89D2, 0x5EA6]"  \<comment> \<open>high firing angle\<close>

text \<open>\<open>(\d+\.?\d*)\<close> at the start of \<open>s\<close>.\<close>

definition number_capture :: "jstring \<Rightarrow> jstring option" where
  "number_capture s =
     (let ds = takeWhile is_ascii_digit s; rest = drop (length ds) s
      in if ds = [] then None
         else if rest \<noteq> [] \<and> hd rest = DOT
         then Some (ds @ DOT # takeWhile is_ascii_digit (tl rest))
         else Some ds)"

text \<open>The whole pattern at the start of \<open>s\<close>: the label, \<open>:?\<close>, \<open>\s*\<close>, the group.\<close>

definition label_match :: "jstring \<Rightarrow> jstring \<Rightarrow> jstring option" where
  "label_match label s =
     (if take (length label) s = label
      then (let r = drop (length label) s;
                r1 = (if r \<noteq> [] \<and> hd r = COLON then tl r else r)
            in number_capture (dropWhile is_js_space r1))
      else None)"

fun results_search :: "jstring \<Rightarrow> jstring \<Rightarrow> jstring option" where
  "results_search label [] = label_match label []"
| "results_search label (c # cs) =
     (case label_match label (c # cs) of Some cap \<Rightarrow> Some cap | None \<Rightarrow> results_search label cs)"

lemmas results_eval = low_label_def high_label_def number_capture_def label_match_def
  is_ascii_digit_def is_js_space_def

subsection \<open>The language of the pattern\<close>

text \<open>
  A greedy match of \<open>\d+\.?\d*\<close> that leaves \<open>post\<close> behind: the group cannot be
  extended by the next character.
\<close>

definition greedy_number :: "jstring \<Rightarrow> jstring \<Rightarrow> bool" where
  "greedy_number cap post \<longleftrightarrow>
     (\<exists>d1. d1 \<noteq> [] \<and> list_all is_ascii_digit d1 \<and>
        ((cap = d1 \<and> (post = [] \<or> \<not> is_ascii_digit (hd post) \<and> hd post \<noteq> DOT)) \<or>
         (\<exists>d2. list_all is_ascii_digit d2 \<and> cap = d1 @ DOT # d2 \<and>
            (post = [] \<or> \<not> is_ascii_digit (hd post)))))"

text \<open>
  The match of the whole pattern at the start of \<open>s\<close>, with its capture \<open>cap\<close>:
  the label, an optional colon, white space, and a greedy number.
\<close>

definition pattern_match :: "jstring \<Rightarrow> jstring \<Rightarrow> jstring \<Rightarrow> bool" where
  "pattern_match label s cap \<longleftrightarrow>
     (\<exists>c sp post. s = label @ c @ sp @ cap @ post \<and> (c = [] \<or> c = [COLON]) \<and>
        list_all is_js_space sp \<and> greedy_number cap post)"

text \<open>
  Every occurrence of the label in \<open>s\<close> is followed by nothing or by a character that
  cannot continue the pattern: neither the ASCII colon, nor white space, nor a digit.
\<close>

fun label_blocked :: "jstring \<Rightarrow> jstring \<Rightarrow> bool" where
  "label_blocked label [] = True"
| "label_blocked label (x # xs) =
     ((take (length label) (x # xs) = label \<longrightarrow>
        (case drop (length label) (x # xs) of
           [] \<Rightarrow> True
         | d # _ \<Rightarrow> d \<noteq> COLON \<and> \<not> is_js_space d \<and> \<not> is_ascii_digit d)) \<and>
      label_blocked label xs)"

lemma dot_not_ascii_digit [simp]: "\<not> is_ascii_digit DOT"
  by (simp add: is_ascii_digit_def)

lemma colon_not_ascii_digit [simp]: "\<not> is_ascii_digit COLON"
  by (simp add: is_ascii_digit_def)

lemma colon_not_space [simp]: "\<not> is_js_space COLON"
  by (simp add: is_js_space_def)

lemma takeWhile_all_append:
  "list_all P d \<Longrightarrow> (post = [] \<or> \<not> P (hd post)) \<Longrightarrow> takeWhile P (d @ post) = d"
proof (induction d)
  case Nil
  then show ?case by (cases post) auto
qed simp

lemma dropWhile_hd_not:
  "dropWhile P s \<noteq> [] \<Longrightarrow> \<not> P (hd (dropWhile P s))"
  by (induction s) auto

lemma number_capture_Some:
  assumes "number_capture s = Some cap"
  shows "\<exists>post. s = cap @ post \<and> greedy_number cap post"
proof -
  let ?ds = "takeWhile is_ascii_digit s"
  have ds: "?ds \<noteq> []" "list_all is_ascii_digit ?ds"
    using assms by (auto simp: number_capture_def Let_def list_all_iff dest: set_takeWhileD)
  have s: "s = ?ds @ dropWhile is_ascii_digit s" by simp
  have rest: "drop (length ?ds) s = dropWhile is_ascii_digit s"
    by (metis append_eq_conv_conj takeWhile_dropWhile_id)
  show ?thesis
  proof (cases "dropWhile is_ascii_digit s \<noteq> [] \<and> hd (dropWhile is_ascii_digit s) = DOT")
    case True
    then obtain r where r: "dropWhile is_ascii_digit s = DOT # r"
      by (cases "dropWhile is_ascii_digit s") auto
    have cap: "cap = ?ds @ DOT # takeWhile is_ascii_digit r"
      using assms ds r rest by (simp add: number_capture_def Let_def)
    have dd: "list_all is_ascii_digit (takeWhile is_ascii_digit r)"
      by (auto simp: list_all_iff dest: set_takeWhileD)
    have "dropWhile is_ascii_digit r = [] \<or> \<not> is_ascii_digit (hd (dropWhile is_ascii_digit r))"
      using dropWhile_hd_not by blast
    then have "greedy_number cap (dropWhile is_ascii_digit r)"
      unfolding greedy_number_def cap using ds dd by blast
    moreover have "s = cap @ dropWhile is_ascii_digit r"
      using s r cap by simp
    ultimately show ?thesis by blast
  next
    case False
    have cap: "cap = ?ds"
      using assms ds rest False by (auto simp: number_capture_def Let_def split: if_splits)
    have "greedy_number cap (dropWhile is_ascii_digit s)"
      unfolding greedy_number_def cap using ds False dropWhile_hd_not [of is_ascii_digit s]
      by auto
    with s cap show ?thesis by blast
  qed
qed

lemma number_capture_greedy:
  assumes "greedy_number cap post"
  shows "number_capture (cap @ post) = Some cap"
proof -
  obtain d1 where d1: "d1 \<noteq> []" "list_all is_ascii_digit d1"
    and alt: "(cap = d1 \<and> (post = [] \<or> \<not> is_ascii_digit (hd post) \<and> hd post \<noteq> DOT)) \<or>
       (\<exists>d2. list_all is_ascii_digit d2 \<and> cap = d1 @ DOT # d2 \<and>
          (post = [] \<or> \<not> is_ascii_digit (hd post)))"
    using assms unfolding greedy_number_def by blast
  from alt show ?thesis
  proof
    assume a: "cap = d1 \<and> (post = [] \<or> \<not> is_ascii_digit (hd post) \<and> hd post \<noteq> DOT)"
    then have "takeWhile is_ascii_digit (d1 @ post) = d1"
      using d1 by (intro takeWhile_all_append) auto
    with a d1 show ?thesis by (auto simp: number_capture_def Let_def)
  next
    assume "\<exists>d2. list_all is_ascii_digit d2 \<and> cap = d1 @ DOT # d2 \<and>
          (post = [] \<or> \<not> is_ascii_digit (hd post))"
    then obtain d2 where d2: "list_all is_ascii_digit d2" "cap = d1 @ DOT # d2"
      "post = [] \<or> \<not> is_ascii_digit (hd post)" by blast
    have t1: "takeWhile is_ascii_digit (d1 @ DOT # d2 @ post) = d1"
      using d1 by (intro takeWhile_all_append) auto
    have t2: "takeWhile is_ascii_digit (d2 @ post) = d2"
      using d2 by (intro takeWhile_all_append) auto
    show ?thesis using d1 d2 t1 t2 by (simp add: number_capture_def Let_def)
  qed
qed

lemma number_capture_iff:
  "number_capture s = Some cap \<longleftrightarrow> (\<exists>post. s = cap @ post \<and> greedy_number cap post)"
  using number_capture_Some number_capture_greedy by blast


lemma greedy_number_hd:
  "greedy_number cap post \<Longrightarrow> cap \<noteq> [] \<and> is_ascii_digit (hd cap)"
  unfolding greedy_number_def by (auto simp: neq_Nil_conv)

lemma dropWhile_all_append:
  "list_all P sp \<Longrightarrow> (x = [] \<or> \<not> P (hd x)) \<Longrightarrow> dropWhile P (sp @ x) = x"
proof (induction sp)
  case Nil
  then show ?case by (cases x) auto
qed simp

lemma label_match_Some:
  assumes "label_match label s = Some cap"
  shows "\<exists>c sp post. s = label @ c @ sp @ cap @ post \<and> (c = [] \<or> c = [COLON]) \<and>
           list_all is_js_space sp \<and> greedy_number cap post"
proof -
  let ?r = "drop (length label) s"
  define c where "c = (if ?r \<noteq> [] \<and> hd ?r = COLON then [COLON] else [])"
  define r1 where "r1 = (if ?r \<noteq> [] \<and> hd ?r = COLON then tl ?r else ?r)"
  have pre: "take (length label) s = label"
    using assms by (simp add: label_match_def split: if_splits)
  have s0: "s = label @ ?r"
    using pre by (metis append_take_drop_id)
  have s: "s = label @ c @ r1"
    unfolding c_def r1_def using s0 by (cases ?r) auto
  have "number_capture (dropWhile is_js_space r1) = Some cap"
    using assms pre by (simp add: label_match_def r1_def Let_def)
  then obtain post where p: "dropWhile is_js_space r1 = cap @ post" "greedy_number cap post"
    using number_capture_iff by blast
  have "r1 = takeWhile is_js_space r1 @ cap @ post"
    using p(1) takeWhile_dropWhile_id [of is_js_space r1] by simp
  moreover have "list_all is_js_space (takeWhile is_js_space r1)"
    by (auto simp: list_all_iff dest: set_takeWhileD)
  moreover have "c = [] \<or> c = [COLON]" by (simp add: c_def)
  ultimately show ?thesis using s p(2) by metis
qed

lemma label_match_match:
  assumes "c = [] \<or> c = [COLON]" and "list_all is_js_space sp" and "greedy_number cap post"
  shows "label_match label (label @ c @ sp @ cap @ post) = Some cap"
proof -
  have hd: "cap \<noteq> []" "is_ascii_digit (hd cap)" using greedy_number_hd [OF assms(3)] by auto
  then have nsp: "\<not> is_js_space (hd (cap @ post))" by (simp add: ascii_digit_not_space)
  have dw: "dropWhile is_js_space (sp @ cap @ post) = cap @ post"
    using assms(2) nsp hd by (intro dropWhile_all_append) auto
  have nc: "\<not> (sp @ cap @ post \<noteq> [] \<and> hd (sp @ cap @ post) = COLON)"
    using assms(2) hd by (cases sp) auto
  from assms(1) show ?thesis
  proof
    assume c: "c = []"
    have e: "drop (length label) (label @ sp @ cap @ post) = sp @ cap @ post" by simp
    have t: "take (length label) (label @ sp @ cap @ post) = label" by simp
    show ?thesis
      unfolding c append_Nil label_match_def Let_def t e if_not_P [OF nc]
      by (simp add: dw number_capture_greedy [OF assms(3)])
  next
    assume "c = [COLON]"
    then show ?thesis using dw number_capture_greedy [OF assms(3)]
      by (simp add: label_match_def Let_def)
  qed
qed

lemma label_match_iff: "label_match label s = Some cap \<longleftrightarrow> pattern_match label s cap"
  unfolding pattern_match_def using label_match_Some label_match_match by blast

lemma label_match_None_iff: "label_match label s = None \<longleftrightarrow> (\<forall>cap. \<not> pattern_match label s cap)"
  by (cases "label_match label s") (auto simp: label_match_iff [symmetric])

lemma results_search_iff:
  "results_search label s = Some cap \<longleftrightarrow>
     (\<exists>k \<le> length s. label_match label (drop k s) = Some cap \<and>
        (\<forall>j < k. label_match label (drop j s) = None))"
proof (induction s)
  case Nil
  then show ?case by auto
next
  case (Cons a s)
  show ?case
  proof (cases "label_match label (a # s)")
    case None
    have "(\<exists>k \<le> length (a # s). label_match label (drop k (a # s)) = Some cap \<and>
             (\<forall>j < k. label_match label (drop j (a # s)) = None)) \<longleftrightarrow>
          (\<exists>k \<le> length s. label_match label (drop k s) = Some cap \<and>
             (\<forall>j < k. label_match label (drop j s) = None))"
      (is "?L \<longleftrightarrow> ?R")
    proof
      assume ?L
      then obtain k where k: "k \<le> length (a # s)" "label_match label (drop k (a # s)) = Some cap"
        "\<forall>j < k. label_match label (drop j (a # s)) = None" by blast
      with None obtain k' where "k = Suc k'" by (cases k) auto
      with k show ?R by (intro exI [of _ k']) auto
    next
      assume ?R
      then obtain k where k: "k \<le> length s" "label_match label (drop k s) = Some cap"
        "\<forall>j < k. label_match label (drop j s) = None" by blast
      have "\<forall>j < Suc k. label_match label (drop j (a # s)) = None"
        using k(3) None by (auto simp: less_Suc_eq_0_disj)
      with k show ?L by (intro exI [of _ "Suc k"]) auto
    qed
    with None Cons.IH show ?thesis by simp
  next
    case (Some cap')
    then show ?thesis by (auto intro!: exI [of _ 0] elim: allE [of _ 0])
  qed
qed


text \<open>\<open>parseFloat\<close> of a capture never yields \<open>NaN\<close>.\<close>

lemma greedy_number_parse_float:
  "greedy_number cap post \<Longrightarrow> js_parse_float cap \<noteq> None"
  unfolding greedy_number_def
  by (auto simp: js_parse_float_digits js_parse_float_digits_dot_digits)

lemma results_search_parse_float:
  "results_search label s = Some cap \<Longrightarrow> js_parse_float cap \<noteq> None"
  using greedy_number_parse_float
  by (auto simp: results_search_iff label_match_iff pattern_match_def)

text \<open>
  A label followed by a character that is neither the ASCII colon, nor white space, nor a digit
  (the full-width colon U+FF1A, for instance) does not start a match.
\<close>

lemma label_match_blocked:
  assumes "take 1 (drop (length label) s) = [c]" and "c \<noteq> COLON" and "\<not> is_js_space c"
    and "\<not> is_ascii_digit c"
  shows "label_match label s = None"
proof -
  obtain rest where r: "drop (length label) s = c # rest"
    using assms(1) by (cases "drop (length label) s") auto
  show ?thesis using assms(2-4) r by (simp add: label_match_def number_capture_def Let_def)
qed

lemma results_search_blocked:
  assumes "label_blocked label s" and "label \<noteq> []"
  shows "results_search label s = None"
  using assms(1)
proof (induction s)
  case Nil
  then show ?case using assms(2) by (simp add: label_match_def)
next
  case (Cons x xs)
  have "label_match label (x # xs) = None"
  proof (cases "take (length label) (x # xs) = label")
    case True
    show ?thesis
    proof (cases "drop (length label) (x # xs)")
      case Nil
      with True show ?thesis by (simp add: label_match_def number_capture_def Let_def)
    next
      case (Cons d rest)
      with True Cons.prems have "d \<noteq> COLON" "\<not> is_js_space d" "\<not> is_ascii_digit d" by simp_all
      moreover have "take 1 (drop (length label) (x # xs)) = [d]" using Cons by simp
      ultimately show ?thesis by (intro label_match_blocked) simp_all
    qed
  next
    case False
    then show ?thesis by (simp add: label_match_def)
  qed
  with Cons show ?case by simp
qed

subsection \<open>The patterns find the leftmost match\<close>

text \<open>
  C20: \<open>resultText.match(pattern)[1]\<close>, as \<open>results_search\<close> computes it, is the capture
  of the pattern's match at the leftmost position of the text where the pattern matches at
  all (\<open>pattern_match\<close>: label, optional ASCII colon, white space, greedy number).
\<close>

theorem results_search_leftmost:
  "results_search label s = Some cap \<longleftrightarrow>
     (\<exists>k \<le> length s. pattern_match label (drop k s) cap \<and>
        (\<forall>j < k. \<forall>cap'. \<not> pattern_match label (drop j s) cap'))"
  by (simp only: results_search_iff label_match_iff label_match_None_iff)


theorem results_search_leftmost_witness:
  "results_search low_label (js_str ''x: 1 '' @ low_label @ js_str '': 12.5'') = Some (js_str ''12.5'') \<and>
   (\<exists>k \<le> length (js_str ''x: 1 '' @ low_label @ js_str '': 12.5'').
      pattern_match low_label (drop k (js_str ''x: 1 '' @ low_label @ js_str '': 12.5'')) (js_str ''12.5'') \<and>
      (\<forall>j < k. \<forall>cap'. \<not> pattern_match low_label
         (drop j (js_str ''x: 1 '' @ low_label @ js_str '': 12.5'')) cap'))"
proof -
  have r: "results_search low_label (js_str ''x: 1 '' @ low_label @ js_str '': 12.5'') = Some (js_str ''12.5'')"
    by (simp add: results_eval js_str_def)
  show ?thesis by (rule conjI [OF r results_search_leftmost [THEN iffD1, OF r]])
qed

end
