(* ===== verification/Device_Arbiter.thy ===== *)
theory Device_Arbiter
  imports Output_Queue Command_Extractor Results_Reader
begin

text \<open>
  The controller of \<^verbatim>\<open>src/speech.js\<close>: the window's focus and blur listeners
  (lines 19--31), the recognition engine's \<open>result\<close>, \<open>end\<close> and \<open>error\<close> listeners
  (\<open>setupRecognition\<close>, lines 118--139), the effects of \<open>processCommand\<close>
  (lines 141--259), \<open>startListening\<close> (lines 319--346), \<open>stopListening\<close>
  (lines 348--363) and \<open>checkAndCalculate\<close> with the callback that reads the results
  (lines 366--404), and the keyboard shortcuts installed on \<open>DOMContentLoaded\<close>
  (lines 472--483).  Every \<open>addLog\<close> call of these functions is an \<open>add_log\<close>.

  The browser delivers one event at a time and runs its listener to completion, so the
  program is a step function \<open>step\<close> on \<open>world\<close> over an \<open>event\<close>: the environment's
  part of the step (the engine closes its session, the utterance finishes, the timer is
  taken off the list) followed by the listener.  \<open>step\<close> is \<open>None\<close> for an event that
  cannot happen in the state (an \<open>end\<close> with no open session, an utterance event with no
  utterance in flight, a timer that is not pending).  Which enabled event comes next, and
  which pending timer fires first, is left open: the timers' delays are not modelled, so the
  reachable states over-approximate the program's.

  Number formatting (\<open>Number.prototype.toString\<close>, used in the spoken confirmations) is a
  parameter \<open>fmt\<close> of the model.  The text of the page's \<open>#results\<close> element, which
  the results callback reads, is the data of the timer event (\<open>None\<close> when the element
  is missing); \<open>RecError\<close> carries the engine's \<open>event.error\<close> and \<open>KeyDown\<close> the
  \<open>altKey\<close> flag and the \<open>key\<close> of a \<open>keydown\<close> event.
\<close>

datatype event =
    Focus | Blur
  | RecResult jstring | RecEnd | RecError jstring
  | UtteranceEnd | UtteranceError
  | StartVoice | StopVoice  \<comment> \<open>clicks on the two buttons, lines 463--469\<close>
  | KeyDown bool jstring
  | FireTimer nat "jstring option"

subsection \<open>Spoken messages\<close>

definition msg_voice_on :: jstring where
  "msg_voice_on = [0x8BED, 0x97F3, 0x63A7, 0x5236, 0x5DF2, 0x5F00, 0x542F]"

definition msg_voice_off :: jstring where
  "msg_voice_off = [0x8BED, 0x97F3, 0x63A7, 0x5236, 0x5DF2, 0x5173, 0x95ED]"

definition msg_set_distance :: "(real \<Rightarrow> jstring) \<Rightarrow> real \<Rightarrow> jstring" where
  "msg_set_distance fmt distance = [0x8BBE, 0x7F6E, 0x8DDD, 0x79BB] @ fmt distance @ [MI]"

definition msg_set_angle :: "(real \<Rightarrow> jstring) \<Rightarrow> real \<Rightarrow> jstring" where
  "msg_set_angle fmt angle =
     [0x8BBE, 0x7F6E, 0x7784, 0x51C6, 0x89D2, 0x5EA6]
     @ (if 0 \<le> angle then fmt angle else FU_NEG # fmt \<bar>angle\<bar>) @ [DU]"

text \<open>\<open>Math.round(x * 100) / 100\<close>: \<open>Math.round\<close> rounds halves up.\<close>

definition round2 :: "real \<Rightarrow> real" where
  "round2 x = real_of_int \<lfloor>x * 100 + 1 / 2\<rfloor> / 100"

definition msg_results :: "(real \<Rightarrow> jstring) \<Rightarrow> real option \<Rightarrow> real option \<Rightarrow> jstring" where
  "msg_results fmt low high =
     (if low = None \<and> high = None
      then [0x8BA1, 0x7B97, 0x5B8C, 0x6210, 0xFF0C, 0x4F46, 0x672A, 0x627E, 0x5230, 0x6709, 0x6548,
            0x7ED3, 0x679C, 0xFF0C, 0x8BF7, 0x68C0, 0x67E5, 0x53C2, 0x6570]
      else [0x8BA1, 0x7B97, 0x5B8C, 0x6210, 0xFF0C]
        @ (case low of None \<Rightarrow> [] | Some l \<Rightarrow> [0x4F4E, 0x5C04, 0x89D2, 0x5EA6] @ fmt (round2 l) @ [DU])
        @ (case high of None \<Rightarrow> []
           | Some h \<Rightarrow> (if low \<noteq> None then [0xFF0C] else [])
                       @ [0x9AD8, 0x5C04, 0x89D2, 0x5EA6] @ fmt (round2 h) @ [DU]))"

lemma round2_eq:
  "real_of_int n \<le> x * 100 + 1 / 2 \<Longrightarrow> x * 100 + 1 / 2 < real_of_int n + 1 \<Longrightarrow>
   round2 x = real_of_int n / 100"
  by (simp add: round2_def floor_unique)

subsection \<open>Handlers\<close>

definition check_and_calculate :: "world \<Rightarrow> world" where
  "check_and_calculate w =
     (if lastSetDistance w \<noteq> None \<and> lastSetAngle w \<noteq> None
      then add_timer ReadResultsLater (w\<lparr>calc_log := calc_log w @ [ClickTrackerDart, ClickCalc]\<rparr>)
      else w)"

text \<open>
  The callback of lines 375--401.  \<open>parseFloat\<close> of a capture is never \<open>NaN\<close>
  (\<open>results_search_parse_float\<close>), so \<open>Option.bind\<close> only passes the match on.
\<close>

definition read_results :: "(real \<Rightarrow> jstring) \<Rightarrow> jstring option \<Rightarrow> world \<Rightarrow> world" where
  "read_results fmt page w =
     (case page of
        None \<Rightarrow> w
      | Some resultText \<Rightarrow>
          (let w1 = add_log (LogRawResults resultText) LogInfo w;
               lowAngleMatch = results_search low_label resultText;
               highAngleMatch = results_search high_label resultText;
               announcement = msg_results fmt (Option.bind lowAngleMatch js_parse_float)
                                (Option.bind highAngleMatch js_parse_float);
               w2 = add_log (LogMatches lowAngleMatch highAngleMatch) LogInfo w1;
               w3 = add_log (LogAnnouncement announcement) LogInfo w2
           in speak announcement w3))"

definition process_command :: "(real \<Rightarrow> jstring) \<Rightarrow> jstring \<Rightarrow> world \<Rightarrow> world" where
  "process_command fmt transcript w =
     (case regex_exec is_distance_unit transcript of
        Some distanceText \<Rightarrow>
          (let distance = parse_number distanceText;
               w0 = add_log (LogDistance distance distanceText) LogInfo w;
               w1 = w0\<lparr>calc_log := calc_log w0 @ [SetInputD distance]\<rparr>;
               w2 = speak (msg_set_distance fmt distance) w1
           in check_and_calculate (w2\<lparr>lastSetDistance := Some distance\<rparr>))
      | None \<Rightarrow>
          (case regex_exec is_angle_unit transcript of
             Some angleText \<Rightarrow>
               (let angle = signed_angle transcript (parse_number angleText);
                    w0 = add_log (LogAngle angle angleText) LogInfo w;
                    w1 = w0\<lparr>calc_log := calc_log w0 @ [SetInputThetaAim angle]\<rparr>;
                    w2 = speak (msg_set_angle fmt angle) w1
                in check_and_calculate (w2\<lparr>lastSetAngle := Some angle\<rparr>))
           | None \<Rightarrow>
               if js_includes transcript calc_words \<or> js_includes transcript calc_angle_words
               then w\<lparr>calc_log := calc_log w @ [ClickCalc]\<rparr>
               else w))"

definition on_result :: "(real \<Rightarrow> jstring) \<Rightarrow> jstring \<Rightarrow> world \<Rightarrow> world" where
  "on_result fmt transcript w =
     (let t = js_trim transcript in process_command fmt t (add_log (LogRecognized t) LogInfo w))"

definition on_rec_end :: "world \<Rightarrow> world" where
  "on_rec_end w = (if isListening w \<and> \<not> isSpeaking w then uncaught_start w else w)"

definition on_rec_error :: "jstring \<Rightarrow> world \<Rightarrow> world" where
  "on_rec_error err w =
     (let w1 = add_log (LogRecError err) LogError w
      in if isListening w1 \<and> \<not> isSpeaking w1 then add_timer RestartAfterError w1 else w1)"

definition on_focus :: "world \<Rightarrow> world" where
  "on_focus w =
     (let w1 = w\<lparr>lastWindowFocus := True\<rparr>
      in if isListening w1 \<and> \<not> isSpeaking w1 then uncaught_start w1 else w1)"

definition on_blur :: "world \<Rightarrow> world" where
  "on_blur w =
     (let w1 = w\<lparr>lastWindowFocus := False\<rparr> in if isListening w1 then rec_stop w1 else w1)"

text \<open>
  \<open>startListening\<close>: the \<open>try\<close> block recreates the log panel, runs
  \<open>recognition.start()\<close> (when the window has the focus), then \<open>speak\<close> and
  \<open>addLog\<close>; an exception skips the rest of the block (what ran before it stays done) and
  the \<open>catch\<close> logs it and clears \<open>isListening\<close>.  The notification is not modelled.
\<close>

definition start_listening :: "world \<Rightarrow> world" where
  "start_listening w =
     (if \<not> isListening w then
        (let w1 = create_log_box (w\<lparr>isListening := True\<rparr>)
         in case (if lastWindowFocus w1 then rec_start w1 else Inr w1) of
              Inl e \<Rightarrow> (add_log (LogStartFailed e) LogError w1)\<lparr>isListening := False\<rparr>
            | Inr w2 \<Rightarrow> add_log LogVoiceOn LogInfo (speak msg_voice_on w2))
      else w)"

definition stop_listening :: "world \<Rightarrow> world" where
  "stop_listening w =
     (if isListening w
      then add_log LogVoiceOff LogInfo (speak msg_voice_off (rec_stop (w\<lparr>isListening := False\<rparr>)))
      else w)"

text \<open>
  The \<open>keydown\<close> listener (lines 472--483): two independent tests of \<open>altKey\<close> and of
  \<open>event.key.toLowerCase()\<close>; \<open>preventDefault()\<close> only concerns the browser.
\<close>

definition on_keydown :: "bool \<Rightarrow> jstring \<Rightarrow> world \<Rightarrow> world" where
  "on_keydown altKey key w =
     (let w1 = (if altKey \<and> js_to_lower key = js_str ''v'' then start_listening w else w)
      in if altKey \<and> js_to_lower key = js_str ''c'' then stop_listening w1 else w1)"

definition run_timer ::
  "(real \<Rightarrow> jstring) \<Rightarrow> timer_task \<Rightarrow> jstring option \<Rightarrow> world \<Rightarrow> world" where
  "run_timer fmt task page w =
     (case task of
        RestartAfterError \<Rightarrow> uncaught_start w
      | ProcessQueueLater \<Rightarrow> process_speech_queue w
      | RestartAfterDrain \<Rightarrow> uncaught_start w
      | ReadResultsLater \<Rightarrow> read_results fmt page w)"

definition remove_nth :: "nat \<Rightarrow> 'a list \<Rightarrow> 'a list" where
  "remove_nth i xs = take i xs @ drop (Suc i) xs"

subsection \<open>The contract of \<open>processCommand\<close>\<close>

text \<open>
  What the specification's caller does with a command, seen through the calculator and the
  announcements: the last distance and angle, the calls on the calculator page, and the texts
  passed to \<open>speak\<close>.
\<close>

type_synonym calc_view = "real option \<times> real option \<times> calc_action list \<times> jstring list"

definition calc_view :: "world \<Rightarrow> calc_view" where
  "calc_view w = (lastSetDistance w, lastSetAngle w, calc_log w, enqueued w)"

definition both_set_actions :: "real option \<Rightarrow> calc_action list" where
  "both_set_actions other = (if other \<noteq> None then [ClickTrackerDart, ClickCalc] else [])"

definition apply_command :: "(real \<Rightarrow> jstring) \<Rightarrow> command option \<Rightarrow> calc_view \<Rightarrow> calc_view" where
  "apply_command fmt cmd v =
     (case v of (d, a, acts, msgs) \<Rightarrow>
       (case cmd of
          None \<Rightarrow> (d, a, acts, msgs)
        | Some (SetDistance x) \<Rightarrow>
            (Some x, a, acts @ SetInputD x # both_set_actions a, msgs @ [msg_set_distance fmt x])
        | Some (SetAngle x) \<Rightarrow>
            (d, Some x, acts @ SetInputThetaAim x # both_set_actions d, msgs @ [msg_set_angle fmt x])
        | Some TriggerCalculation \<Rightarrow> (d, a, acts @ [ClickCalc], msgs)))"

subsection \<open>The event loop\<close>

fun step :: "(real \<Rightarrow> jstring) \<Rightarrow> world \<Rightarrow> event \<Rightarrow> world option" where
  "step fmt w Focus = Some (on_focus w)"
| "step fmt w Blur = Some (on_blur w)"
| "step fmt w (RecResult t) = (if rec w = RecIdle then None else Some (on_result fmt t w))"
| "step fmt w RecEnd = (if rec w = RecIdle then None else Some (on_rec_end (w\<lparr>rec := RecIdle\<rparr>)))"
| "step fmt w (RecError err) = (if rec w = RecIdle then None else Some (on_rec_error err w))"
| "step fmt w UtteranceEnd =
     (if synth_current w = None then None else Some (utterance_end_event w))"
| "step fmt w UtteranceError =
     (if synth_current w = None then None else Some (utterance_error_event w))"
| "step fmt w StartVoice = Some (start_listening w)"
| "step fmt w StopVoice = Some (stop_listening w)"
| "step fmt w (KeyDown altKey key) = Some (on_keydown altKey key w)"
| "step fmt w (FireTimer i page) =
     (if i < length (timers w)
      then Some (run_timer fmt (timers w ! i) page (w\<lparr>timers := remove_nth i (timers w)\<rparr>))
      else None)"

fun run :: "(real \<Rightarrow> jstring) \<Rightarrow> world \<Rightarrow> event list \<Rightarrow> world option" where
  "run fmt w [] = Some w"
| "run fmt w (e # es) = (case step fmt w e of None \<Rightarrow> None | Some w' \<Rightarrow> run fmt w' es)"

inductive reachable :: "(real \<Rightarrow> jstring) \<Rightarrow> world \<Rightarrow> bool" for fmt where
  init: "reachable fmt init_world"
| step: "reachable fmt w \<Longrightarrow> step fmt w e = Some w' \<Longrightarrow> reachable fmt w'"

text \<open>The events by which the queue moves on without the user: ends of utterances and timers.\<close>

definition drain_events :: "event set" where
  "drain_events = insert UtteranceEnd (range (\<lambda>i. FireTimer i None))"

subsection \<open>Invariant of the event loop\<close>

lemma queue_inv_check_and_calculate [simp]: "queue_inv (check_and_calculate w) = queue_inv w"
  by (simp add: check_and_calculate_def)

lemma queue_inv_read_results: "queue_inv w \<Longrightarrow> queue_inv (read_results fmt page w)"
  by (auto simp: read_results_def Let_def split: option.split intro: queue_inv_speak)

lemma queue_inv_process_command: "queue_inv w \<Longrightarrow> queue_inv (process_command fmt t w)"
  by (auto simp: process_command_def Let_def split: option.split intro!: queue_inv_speak)

lemma queue_inv_start_listening: "queue_inv w \<Longrightarrow> queue_inv (start_listening w)"
  by (auto simp: start_listening_def rec_start_def Let_def intro!: queue_inv_speak)

lemma queue_inv_stop_listening: "queue_inv w \<Longrightarrow> queue_inv (stop_listening w)"
  by (auto simp: stop_listening_def intro!: queue_inv_speak)

lemma queue_inv_on_keydown: "queue_inv w \<Longrightarrow> queue_inv (on_keydown altKey key w)"
  by (simp add: on_keydown_def Let_def queue_inv_start_listening queue_inv_stop_listening)

lemma queue_inv_run_timer: "queue_inv w \<Longrightarrow> queue_inv (run_timer fmt task page w)"
  by (cases task) (simp_all add: run_timer_def queue_inv_process_speech_queue queue_inv_read_results)

lemma queue_inv_step: "queue_inv w \<Longrightarrow> step fmt w e = Some w' \<Longrightarrow> queue_inv w'"
  by (cases e)
    (auto simp: on_focus_def on_blur_def on_result_def on_rec_end_def on_rec_error_def Let_def
      split: if_splits intro: queue_inv_process_command queue_inv_start_listening
      queue_inv_stop_listening queue_inv_on_keydown queue_inv_run_timer queue_inv_utterance_end_event
      queue_inv_utterance_error_event)

lemma reachable_queue_inv: "reachable fmt w \<Longrightarrow> queue_inv w"
  by (induction rule: reachable.induct) (auto simp: queue_inv_init intro: queue_inv_step)

lemma run_reachable: "reachable fmt w \<Longrightarrow> run fmt w es = Some w' \<Longrightarrow> reachable fmt w'"
  by (induction es arbitrary: w) (auto split: option.splits intro: reachable.step)


subsection \<open>Invariant of the log panel\<close>

text \<open>
  Before the first \<open>startListening\<close> the panel does not exist and nothing can log: the
  handler is not listening, no session is open, nothing plays and no timer is pending.  From
  \<open>startListening\<close> on, \<open>log_ok\<close> holds.
\<close>

definition log_pristine :: "world \<Rightarrow> bool" where
  "log_pristine w \<longleftrightarrow>
     log_box w = None \<and> console_errors w = 0 \<and> \<not> isListening w \<and> rec w = RecIdle \<and>
     synth_current w = None \<and> timers w = []"

definition log_inv :: "world \<Rightarrow> bool" where
  "log_inv w \<longleftrightarrow> log_ok w \<or> log_pristine w"

lemma log_ok_console_errors: "log_ok w \<Longrightarrow> console_errors w = 0"
  by (simp add: log_ok_def)

lemma log_ok_check_and_calculate [simp, log_ok_rules]:
  "log_ok (check_and_calculate w) = log_ok w"
  by (simp add: check_and_calculate_def)

lemma log_ok_start_listening_fresh:
  "console_errors w = 0 \<Longrightarrow> \<not> isListening w \<Longrightarrow> log_ok (start_listening w)"
  by (auto simp: start_listening_def rec_start_def Let_def intro!: log_ok_rules)

lemma log_ok_start_listening [log_ok_rules]: "log_ok w \<Longrightarrow> log_ok (start_listening w)"
proof (cases "isListening w")
  case True
  then show "log_ok w \<Longrightarrow> ?thesis" by (simp add: start_listening_def)
next
  case False
  then show "log_ok w \<Longrightarrow> ?thesis" by (intro log_ok_start_listening_fresh log_ok_console_errors)
qed

lemma log_ok_handlers [log_ok_rules]:
  "log_ok w \<Longrightarrow> log_ok (read_results fmt page w)"
  "log_ok w \<Longrightarrow> log_ok (process_command fmt t w)"
  "log_ok w \<Longrightarrow> log_ok (on_result fmt t w)"
  "log_ok w \<Longrightarrow> log_ok (on_rec_end w)"
  "log_ok w \<Longrightarrow> log_ok (on_rec_error err w)"
  "log_ok w \<Longrightarrow> log_ok (on_focus w)"
  "log_ok w \<Longrightarrow> log_ok (on_blur w)"
  "log_ok w \<Longrightarrow> log_ok (stop_listening w)"
  by (auto simp: read_results_def process_command_def on_result_def on_rec_end_def
      on_rec_error_def on_focus_def on_blur_def stop_listening_def Let_def
      split: option.split intro!: log_ok_rules)

lemma log_ok_on_keydown [log_ok_rules]: "log_ok w \<Longrightarrow> log_ok (on_keydown altKey key w)"
  by (auto simp: on_keydown_def Let_def log_ok_console_errors intro!: log_ok_rules)

lemma log_ok_run_timer [log_ok_rules]: "log_ok w \<Longrightarrow> log_ok (run_timer fmt task page w)"
  by (cases task) (auto simp: run_timer_def intro!: log_ok_rules)

lemma log_ok_step: "log_ok w \<Longrightarrow> step fmt w e = Some w' \<Longrightarrow> log_ok w'"
  by (cases e) (auto split: if_splits intro!: log_ok_rules)

lemma log_inv_step: "log_inv w \<Longrightarrow> step fmt w e = Some w' \<Longrightarrow> log_inv w'"
proof (cases "log_ok w")
  case True
  then show "step fmt w e = Some w' \<Longrightarrow> log_inv w'" by (simp add: log_inv_def log_ok_step)
next
  assume "log_inv w" and "\<not> log_ok w" and s: "step fmt w e = Some w'"
  then have p: "log_pristine w" by (simp add: log_inv_def)
  show "log_inv w'"
    using p s by (cases e) (auto simp: log_inv_def log_pristine_def on_focus_def on_blur_def
      stop_listening_def rec_stop_def on_keydown_def js_str_def Let_def
      log_ok_start_listening_fresh split: if_splits)
qed

lemma reachable_log_inv: "reachable fmt w \<Longrightarrow> log_inv w"
proof (induction rule: reachable.induct)
  case init
  then show ?case by (simp add: log_inv_def log_pristine_def init_world_def)
next
  case (step w e w')
  with log_inv_step show ?case by blast
qed

subsection \<open>Progress of the queue\<close>

lemma mem_remove_nth: "x \<in> set xs \<Longrightarrow> xs ! i \<noteq> x \<Longrightarrow> x \<in> set (remove_nth i xs)"
proof (cases "i < length xs")
  case True
  assume x: "x \<in> set xs" and n: "xs ! i \<noteq> x"
  have "xs = take i xs @ xs ! i # drop (Suc i) xs"
    using True by (simp add: Cons_nth_drop_Suc)
  then have "x \<in> set (take i xs) \<union> set (drop (Suc i) xs)"
    using x n by (metis Un_iff set_ConsD set_append)
  then show ?thesis by (simp add: remove_nth_def)
next
  case False
  then show "x \<in> set xs \<Longrightarrow> xs ! i \<noteq> x \<Longrightarrow> x \<in> set (remove_nth i xs)"
    by (simp add: remove_nth_def)
qed

lemma drain_ok_remove_nth:
  "drain_ok w \<Longrightarrow> timers w ! i \<noteq> ProcessQueueLater \<Longrightarrow>
   drain_ok (w\<lparr>timers := remove_nth i (timers w)\<rparr>)"
  unfolding drain_ok_def by (auto simp: mem_remove_nth)

lemma drain_ok_handlers:
  "drain_ok w \<Longrightarrow> drain_ok (check_and_calculate w)"
  "drain_ok w \<Longrightarrow> drain_ok (read_results fmt page w)"
  "drain_ok w \<Longrightarrow> drain_ok (process_command fmt t w)"
  "drain_ok w \<Longrightarrow> drain_ok (on_result fmt t w)"
  "drain_ok w \<Longrightarrow> drain_ok (on_rec_end w)"
  "drain_ok w \<Longrightarrow> drain_ok (on_rec_error err w)"
  "drain_ok w \<Longrightarrow> drain_ok (on_focus w)"
  "drain_ok w \<Longrightarrow> drain_ok (on_blur w)"
  "drain_ok w \<Longrightarrow> drain_ok (start_listening w)"
  "drain_ok w \<Longrightarrow> drain_ok (stop_listening w)"
  by (auto simp: check_and_calculate_def read_results_def process_command_def on_result_def
      on_rec_end_def on_rec_error_def on_focus_def on_blur_def start_listening_def
      stop_listening_def rec_start_def Let_def drain_ok_add_timer
      split: option.split sum.split)

lemma drain_ok_step: "drain_ok w \<Longrightarrow> step fmt w e = Some w' \<Longrightarrow> drain_ok w'"
proof (cases e)
  case (FireTimer i page)
  assume d: "drain_ok w" and s: "step fmt w e = Some w'"
  let ?w0 = "w\<lparr>timers := remove_nth i (timers w)\<rparr>"
  have w': "w' = run_timer fmt (timers w ! i) page ?w0"
    using s FireTimer by (simp split: if_splits)
  show ?thesis
  proof (cases "timers w ! i = ProcessQueueLater")
    case True
    then show ?thesis using w' by (simp add: run_timer_def)
  next
    case False
    have "drain_ok ?w0" by (rule drain_ok_remove_nth [OF d False])
    then show ?thesis using w'
      by (cases "timers w ! i") (simp_all add: run_timer_def drain_ok_handlers)
  qed
qed (auto simp: on_keydown_def Let_def drain_ok_handlers drain_ok_utterance_events split: if_splits)

lemma reachable_drain_ok: "reachable fmt w \<Longrightarrow> drain_ok w"
proof (induction rule: reachable.induct)
  case init
  then show ?case by (simp add: drain_ok_def init_world_def)
next
  case (step w e w')
  with drain_ok_step show ?case by blast
qed

lemma drain_run:
  assumes "queue_inv w" and "drain_ok w"
  shows "\<exists>es w'. set es \<subseteq> drain_events \<and> run fmt w es = Some w' \<and>
           speechQueue w' = [] \<and> \<not> isSpeaking w' \<and> enqueued w' = enqueued w \<and> queue_inv w'"
  using assms
proof (induction "2 * length (speechQueue w) + (if isSpeaking w then 0 else 1)"
    arbitrary: w rule: less_induct)
  case less
  show ?case
  proof (cases "isSpeaking w")
    case True
    with less.prems have sc: "synth_current w \<noteq> None" and q: "speechQueue w \<noteq> []"
      by (auto simp: queue_inv_def)
    let ?w1 = "utterance_end_event w"
    have s: "step fmt w UtteranceEnd = Some ?w1" using sc by simp
    have inv: "queue_inv ?w1" "drain_ok ?w1"
      using queue_inv_step [OF less.prems(1) s] drain_ok_step [OF less.prems(2) s] by auto
    have f: "speechQueue ?w1 = tl (speechQueue w)" "\<not> isSpeaking ?w1" "enqueued ?w1 = enqueued w"
      using utterance_end_event_fields [OF sc] by auto
    have "2 * length (speechQueue ?w1) + (if isSpeaking ?w1 then 0 else 1) <
          2 * length (speechQueue w) + (if isSpeaking w then 0 else 1)"
      using f q True by (cases "speechQueue w") auto
    from less.hyps [OF this inv] obtain es w' where
      r: "set es \<subseteq> drain_events" "run fmt ?w1 es = Some w'" "speechQueue w' = []"
      "\<not> isSpeaking w'" "enqueued w' = enqueued ?w1" "queue_inv w'" by blast
    show ?thesis
      using r s f by (intro exI [of _ "UtteranceEnd # es"] exI [of _ w']) (simp add: drain_events_def)
  next
    case False
    show ?thesis
    proof (cases "speechQueue w = []")
      case True
      with False less.prems show ?thesis by (intro exI [of _ "[]"] exI [of _ w]) simp
    next
      case q: False
      with False less.prems(2) obtain i where i: "i < length (timers w)" "timers w ! i = ProcessQueueLater"
        by (auto simp: drain_ok_def in_set_conv_nth)
      let ?w1 = "process_speech_queue (w\<lparr>timers := remove_nth i (timers w)\<rparr>)"
      have s: "step fmt w (FireTimer i None) = Some ?w1" using i by (simp add: run_timer_def)
      have inv: "queue_inv ?w1" "drain_ok ?w1"
        using queue_inv_step [OF less.prems(1) s] drain_ok_step [OF less.prems(2) s] by auto
      have f: "speechQueue ?w1 = speechQueue w" "isSpeaking ?w1" "enqueued ?w1 = enqueued w"
        using q False by (simp_all add: queue_simps Let_def)
      have "2 * length (speechQueue ?w1) + (if isSpeaking ?w1 then 0 else 1) <
            2 * length (speechQueue w) + (if isSpeaking w then 0 else 1)"
        using f False by simp
      from less.hyps [OF this inv] obtain es w' where
        r: "set es \<subseteq> drain_events" "run fmt ?w1 es = Some w'" "speechQueue w' = []"
        "\<not> isSpeaking w'" "enqueued w' = enqueued ?w1" "queue_inv w'" by blast
      show ?thesis
        using r s f by (intro exI [of _ "FireTimer i None # es"] exI [of _ w']) (simp add: drain_events_def)
    qed
  qed
qed

subsection \<open>Distances are never negative\<close>

text \<open>
  The negative sense only applies to angles: every distance the handler records or writes to
  the calculator's distance field is a non-negative number.
\<close>

definition dist_ok :: "world \<Rightarrow> bool" where
  "dist_ok w \<longleftrightarrow>
     (\<forall>d. lastSetDistance w = Some d \<longrightarrow> 0 \<le> d) \<and> (\<forall>d. SetInputD d \<in> set (calc_log w) \<longrightarrow> 0 \<le> d)"

lemma dist_ok_frame [simp]:
  "dist_ok (speak u w) = dist_ok w" "dist_ok (add_log m t w) = dist_ok w"
  "dist_ok (add_timer tk w) = dist_ok w" "dist_ok (uncaught_start w) = dist_ok w"
  "dist_ok (rec_stop w) = dist_ok w" "dist_ok (process_speech_queue w) = dist_ok w"
  "dist_ok (w\<lparr>isListening := b\<rparr>) = dist_ok w" "dist_ok (w\<lparr>lastWindowFocus := b\<rparr>) = dist_ok w"
  "dist_ok (w\<lparr>rec := r\<rparr>) = dist_ok w" "dist_ok (w\<lparr>timers := ts\<rparr>) = dist_ok w"
  "dist_ok (w\<lparr>log_box := lb\<rparr>) = dist_ok w" "dist_ok (w\<lparr>synth_current := su\<rparr>) = dist_ok w"
  by (simp_all add: dist_ok_def add_timer_def uncaught_start_def rec_start_def rec_stop_def
      queue_simps Let_def split: sum.split)

lemma dist_ok_handlers:
  "dist_ok w \<Longrightarrow> dist_ok (check_and_calculate w)"
  "dist_ok w \<Longrightarrow> dist_ok (read_results fmt page w)"
  "dist_ok w \<Longrightarrow> dist_ok (process_command fmt t w)"
  "dist_ok w \<Longrightarrow> dist_ok (start_listening w)"
  "dist_ok w \<Longrightarrow> dist_ok (stop_listening w)"
  "dist_ok w \<Longrightarrow> dist_ok (utterance_end_event w)"
  "dist_ok w \<Longrightarrow> dist_ok (utterance_error_event w)"
  by (auto simp: dist_ok_def check_and_calculate_def read_results_def process_command_def
      start_listening_def stop_listening_def rec_start_def rec_stop_def add_timer_def queue_simps
      Let_def parse_number_nonneg split: option.split)

lemma dist_ok_step: "dist_ok w \<Longrightarrow> step fmt w e = Some w' \<Longrightarrow> dist_ok w'"
  by (cases e) (auto simp: on_focus_def on_blur_def on_result_def on_rec_end_def on_rec_error_def
      on_keydown_def run_timer_def dist_ok_handlers Let_def split: if_splits timer_task.split)

lemma reachable_dist_ok: "reachable fmt w \<Longrightarrow> dist_ok w"
proof (induction rule: reachable.induct)
  case init
  then show ?case by (simp add: dist_ok_def init_world_def)
next
  case (step w e w')
  with dist_ok_step show ?case by blast
qed

subsection \<open>Properties of the handlers\<close>

lemmas step_eval = on_focus_def on_blur_def on_result_def on_rec_end_def on_rec_error_def
  start_listening_def stop_listening_def on_keydown_def run_timer_def remove_nth_def rec_start_def
  rec_stop_def uncaught_start_def init_world_def queue_simps Let_def

lemma idle_world_only_user_events:
  "rec w = RecIdle \<Longrightarrow> synth_current w = None \<Longrightarrow> timers w = [] \<Longrightarrow> step fmt w e \<noteq> None \<Longrightarrow>
   e \<in> {Focus, Blur, StartVoice, StopVoice} \<or> (\<exists>altKey key. e = KeyDown altKey key)"
  by (cases e) auto

text \<open>
  C11: \<open>processCommand\<close> refines the specification's command extractor: its effect on the
  last distance and angle, on the calculator page and on the announcement queue is exactly
  that of the command \<open>extract_command\<close> returns for the transcript.
\<close>

theorem process_command_refines:
  "calc_view (process_command fmt t w) = apply_command fmt (extract_command t) (calc_view w)"
  by (auto simp: process_command_def extract_command_def check_and_calculate_def calc_view_def
      apply_command_def both_set_actions_def add_timer_def Let_def split: option.split)

lemma rec_starts_process_command [simp]: "rec_starts (process_command fmt t w) = rec_starts w"
  by (auto simp: process_command_def check_and_calculate_def add_timer_def Let_def split: option.split)

lemma rec_starts_read_results [simp]: "rec_starts (read_results fmt page w) = rec_starts w"
  by (simp add: read_results_def Let_def split: option.split)

lemma rec_starts_uncaught_start:
  "rec_starts (uncaught_start w) = rec_starts w \<or> rec_starts (uncaught_start w) = rec_starts w @ [isSpeaking w]"
  by (simp add: uncaught_start_def rec_start_def)

text \<open>
  C3: \<open>recognition.start()\<close> succeeds only from the focus and \<open>end\<close> listeners, and
  then only while nothing is being spoken, from \<open>startListening\<close> (its button or the
  Alt+V shortcut), or from the two restart timers: these last do not look at
  \<open>isSpeaking\<close>.
\<close>

theorem recognition_start_sources:
  assumes "step fmt w e = Some w'" and "rec_starts w' \<noteq> rec_starts w"
  shows "(e \<in> {Focus, RecEnd} \<and> rec_starts w' = rec_starts w @ [False]) \<or>
         e = StartVoice \<or> (\<exists>altKey key. e = KeyDown altKey key) \<or>
         (\<exists>i page. e = FireTimer i page \<and> timers w ! i \<in> {RestartAfterError, RestartAfterDrain})"
  using assms
  by (cases e)
    (auto simp: on_focus_def on_blur_def on_result_def on_rec_end_def on_rec_error_def Let_def
      rec_stop_def add_timer_def stop_listening_def run_timer_def
      uncaught_start_def rec_start_def queue_simps split: if_splits timer_task.splits option.splits)

theorem recognition_start_sources_witness:
  "step (\<lambda>_. []) init_world StartVoice = Some (start_listening init_world) \<and>
   rec_starts (start_listening init_world) \<noteq> rec_starts init_world \<and>
   ((StartVoice \<in> {Focus, RecEnd} \<and> rec_starts (start_listening init_world) = rec_starts init_world @ [False])
    \<or> StartVoice = StartVoice \<or> (\<exists>altKey key. StartVoice = KeyDown altKey key) \<or>
    (\<exists>i page. StartVoice = FireTimer i page \<and> timers init_world ! i \<in> {RestartAfterError, RestartAfterDrain}))"
proof -
  have s: "step (\<lambda>_. []) init_world StartVoice = Some (start_listening init_world)" by simp
  have r: "rec_starts (start_listening init_world) \<noteq> rec_starts init_world"
    by (simp add: step_eval)
  show ?thesis using recognition_start_sources [OF s r] s r by blast
qed

text \<open>
  C10: a recognition error schedules at most one restart and starts nothing itself.
\<close>

theorem rec_error_single_retry:
  assumes "step fmt w (RecError err) = Some w'"
  shows "(timers w' = timers w \<or> timers w' = timers w @ [RestartAfterError]) \<and>
         rec_starts w' = rec_starts w \<and> rec w' = rec w"
  using assms by (auto simp: on_rec_error_def add_timer_def Let_def split: if_splits)

theorem rec_error_single_retry_witness:
  "step (\<lambda>_. []) (start_listening init_world) (RecError (js_str ''network'')) =
     Some (on_rec_error (js_str ''network'') (start_listening init_world)) \<and>
   timers (on_rec_error (js_str ''network'') (start_listening init_world)) = [] \<and>
   rec (on_rec_error (js_str ''network'') (start_listening init_world)) = RecActive"
proof -
  have s: "step (\<lambda>_. []) (start_listening init_world) (RecError (js_str ''network'')) =
      Some (on_rec_error (js_str ''network'') (start_listening init_world))"
    by (simp add: step_eval)
  show ?thesis using rec_error_single_retry [OF s] s by (simp add: step_eval)
qed

text \<open>
  C7: when the last announcement ends while listening, the queue schedules a restart, and
  that timer starts recognition again with the speaker idle.
\<close>

theorem drain_resumes_listening:
  assumes "synth_current w \<noteq> None" and "speechQueue w = [u]" and "isListening w"
    and "rec w = RecIdle"
  shows "\<exists>w' w''. step fmt w UtteranceEnd = Some w' \<and>
           step fmt w' (FireTimer (length (timers w)) None) = Some w'' \<and>
           rec w'' = RecActive \<and> \<not> isSpeaking w''"
  using assms by (auto simp: queue_simps uncaught_start_def rec_start_def run_timer_def
      remove_nth_def Let_def)


theorem drain_resumes_listening_witness:
  "synth_current (on_rec_end ((start_listening init_world)\<lparr>rec := RecIdle\<rparr>)) \<noteq> None \<and>
   speechQueue (on_rec_end ((start_listening init_world)\<lparr>rec := RecIdle\<rparr>)) = [msg_voice_on] \<and>
   isListening (on_rec_end ((start_listening init_world)\<lparr>rec := RecIdle\<rparr>)) \<and>
   rec (on_rec_end ((start_listening init_world)\<lparr>rec := RecIdle\<rparr>)) = RecIdle \<and>
   (\<exists>w' w''. step (\<lambda>_. []) (on_rec_end ((start_listening init_world)\<lparr>rec := RecIdle\<rparr>)) UtteranceEnd = Some w' \<and>
      step (\<lambda>_. []) w' (FireTimer 0 None) = Some w'' \<and> rec w'' = RecActive \<and> \<not> isSpeaking w'')"
proof -
  let ?w = "on_rec_end ((start_listening init_world)\<lparr>rec := RecIdle\<rparr>)"
  have h: "synth_current ?w \<noteq> None" "speechQueue ?w = [msg_voice_on]" "isListening ?w"
    "rec ?w = RecIdle" "timers ?w = []"
    by (simp_all add: step_eval)
  show ?thesis
    using drain_resumes_listening [OF h(1-4), where fmt = "\<lambda>_. []"] h by simp
qed

end
