(* ===== verification/Spec2Isabelle.thy ===== *)
theory Spec2Isabelle
  imports Device_Arbiter
begin

text \<open>
  \<^bold>\<open>A verification development of the voice-control module of apex_sparrow_dart_calc.\<close>

  The program is one file, \<^verbatim>\<open>src/speech.js\<close>: a class \<open>SpeechHandler\<close> that
  listens through the browser's speech recognition, turns each recognised transcript into a
  setting of the calculator's distance or aim angle (or a click on "calculate"), and
  announces what it did through speech synthesis.  Its parts, and where they are modelled:

  \<^item> \<^bold>\<open>Numeral parser\<close> (\<open>parseChineseNumber\<close>, \<open>parseArabicNumber\<close>, the table
    \<open>chineseNumbers\<close>, lines 141--199 and the routing test of lines 206--208): theory
    \<open>Numeral_Parser\<close>.  \<open>parseChineseNumber\<close> is a left fold of \<open>cn_step\<close> over
    the code units of its argument, on the record \<open>cn_state\<close> of its five loop variables;
    \<open>parseArabicNumber\<close> filters the string and calls \<open>js_parse_float\<close>, the model of
    \<open>parseFloat\<close> on strings over \<open>[0-9.]\<close>.
  \<^item> \<^bold>\<open>Negative-sense detector\<close> (the list of 79 indicators and the
    \<open>some/includes\<close> test on lower-cased strings, lines 228--242): theory
    \<open>Negative_Sense\<close>, \<open>has_negative_indicator\<close>.
  \<^item> \<^bold>\<open>Command extractor\<close> (the two regular expressions and the "calculate" test
    of \<open>processCommand\<close>, lines 201--259): theory \<open>Command_Extractor\<close>.  The regular
    expressions are executed by \<open>regex_exec\<close>, a backtracking matcher that tries the
    alternatives in ECMAScript's order (greedy repetitions longest first, an optional group
    before its absence, the left alternative of a disjunction first, the lazy \<open>.*?\<close>
    shortest first and never across a line terminator, the leftmost start first);
    \<open>extract_command\<close> is the decision the handler takes, a value of
    \<open>command\<close>, and \<open>first_match\<close> is a declarative reference for the matcher.
  \<^item> \<^bold>\<open>Log panel\<close> (\<open>createLogBox\<close>, \<open>addLog\<close>, lines 37--116): theory
    \<open>Log_Panel\<close> holds the entries (\<open>log_msg\<close>, one constructor per \<open>addLog\<close> call
    of the source, and \<open>log_type\<close>) and the insertion with the trimming \<open>while\<close> loop,
    kept as a \<open>while_option\<close> loop (\<open>trim_log\<close>); \<open>add_log\<close> and
    \<open>create_log_box\<close> act on the handler's state in \<open>Handler_State\<close>, and every
    \<open>addLog\<close> call of the handlers is an \<open>add_log\<close>.
  \<^item> \<^bold>\<open>Results reader\<close> (the two patterns of lines 381--382 that read the low and high
    firing angles from the calculator's \<open>#results\<close> text): theory \<open>Results_Reader\<close>,
    \<open>results_search\<close>, with \<open>pattern_match\<close> the declarative meaning of a match.
  \<^item> \<^bold>\<open>Shared state\<close> (theory \<open>Handler_State\<close>): the record
    \<open>speech_handler\<close> holds the constructor's fields (lines 5--35); \<open>world\<close>
    extends it with the observable state of the environment: the recognition engine
    (\<open>RecIdle\<close>, \<open>RecActive\<close>, \<open>RecStopping\<close>; \<open>rec_start\<close> fails with
    \<open>InvalidStateError\<close> unless idle, as the Web Speech API prescribes), the utterance in
    flight, the pending \<open>setTimeout\<close> callbacks (\<open>timer_task\<close>) and the writes and
    clicks on the calculator page (\<open>calc_action\<close>), the log panel's entries
    (\<open>None\<close> until \<open>startListening\<close> first creates it) and the count of
    \<open>console.error\<close> calls.  History fields (\<open>enqueued\<close>,
    \<open>spoken\<close>, \<open>rec_starts\<close>, \<open>uncaught\<close>) record what the program did and are
    never read by the model of the code.
  \<^item> \<^bold>\<open>Output queue\<close> (\<open>speak\<close>, \<open>processSpeechQueue\<close>, the utterance's
    \<open>onend\<close>/\<open>onerror\<close>, lines 262--317): theory \<open>Output_Queue\<close>, one definition
    per function on \<open>world\<close>, with the invariant \<open>queue_inv\<close>.
  \<^item> \<^bold>\<open>Device arbiter\<close> (the focus and blur listeners, \<open>setupRecognition\<close>'s
    result/end/error listeners, \<open>processCommand\<close>'s effects, \<open>startListening\<close> with its
    \<open>try/catch\<close>, \<open>stopListening\<close>, \<open>checkAndCalculate\<close> and its results
    callback, the buttons' click listeners and the Alt+V / Alt+C \<open>keydown\<close> listener;
    lines 19--31, 118--139, 201--259, 319--404, 463--483): theory \<open>Device_Arbiter\<close>.  Each listener is a
    function \<open>world \<Rightarrow> world\<close>; the datatype \<open>event\<close> names what the browser
    can deliver and \<open>step\<close> runs the listener of an event, or returns \<open>None\<close> when the
    environment cannot deliver it in that state (a result without an open session, the end of
    an utterance when none plays, a timer that is not pending).  \<open>run\<close> folds \<open>step\<close>
    over a list of events and the inductive set \<open>reachable\<close> holds every state some
    sequence of events leads to.  \<open>apply_command\<close> over \<open>calc_view\<close> is the abstract
    contract of \<open>processCommand\<close>.  Four invariants are proved by rule induction over
    \<open>reachable\<close>, each with one preservation lemma per handler: \<open>queue_inv\<close> (queue
    and synthesis engine agree), \<open>drain_ok\<close> (a waiting queue has its
    \<open>processSpeechQueue\<close> timer pending), \<open>log_inv\<close> (the panel exists once anything
    can log, and holds at most ten entries) and \<open>dist_ok\<close> (distances are non-negative).

  Numbers.  JS numbers are doubles.  The parsers' loop variables hold non-negative integers,
  modelled as \<open>nat\<close>: the model is exact while they stay below \<open>2 ^ 53\<close>.  The values
  returned are modelled as \<open>real\<close>, the exact decimal value that the double rounds;
  \<open>Math.round(x * 100) / 100\<close> is \<open>round2\<close>.  Converting a number to a string inside
  a message is the parameter \<open>fmt\<close> of the handlers, so every theorem about messages holds
  for any formatting.  Strings are lists of UTF-16 code units (\<open>Prelude\<close>).

  Time.  Timer delays (300, 500, 1000 ms) are not modelled: any pending timer may fire next and
  other events may come first, which over-approximates every real schedule.  The invariants
  therefore hold for every schedule; the witnesses in this theory are schedules that a browser can
  produce (for example "off" clicked within the 500 ms of the drain timer).  The results
  callback of \<open>checkAndCalculate\<close> receives, as the data of its timer event, the text of the
  calculator's \<open>#results\<close> element (\<open>None\<close> when the element is missing); the
  recognition engine's \<open>error\<close> event carries its \<open>event.error\<close> string and a
  \<open>keydown\<close> event its \<open>altKey\<close> flag and \<open>key\<close>.

  What is proved:
  \<^item> the output queue: in every reachable state the texts handed to the synthesis engine
    followed by the waiting ones are exactly the texts passed to \<open>speak\<close>, in order; what
    plays is the head of the queue; \<open>isSpeaking\<close> agrees with the engine
    (\<open>reachable_utterances_fifo\<close>); and from every reachable state the engine's end events
    and the pending timers alone drain the queue, so no announcement is starved
    (\<open>reachable_queue_drains\<close>, by well-founded induction on twice the queue's length plus
    one when nothing plays);
  \<^item> half duplex: only the focus and end listeners check \<open>isSpeaking\<close> before starting
    recognition.  In every state that satisfies the handlers' own guards, \<open>startListening\<close>
    and the drain timer start recognition while an announcement plays or after "off"; an error
    followed by the end event makes the 1000 ms retry throw an uncaught
    \<open>InvalidStateError\<close>; "on" before the engine has ended fails silently; and a failed
    announcement leaves listening stalled.  Each one with a hypothesis has a witness: a state a browser
    reaches and where the guards hold (this theory);
  \<^item> recovery: an error schedules one delayed retry; the end of the last announcement
    resumes listening (\<open>Device_Arbiter\<close>);
  \<^item> \<open>processCommand\<close> refines \<open>apply_command\<close> of the extracted command, and no
    negative distance ever reaches the calculator;
  \<^item> the log panel: the trimming loop terminates and keeps the first ten entries; the panel
    keeps the ten most recent entries and never holds more; \<open>addLog\<close> never finds the
    panel missing; each \<open>startListening\<close> erases the history;
  \<^item> the keyboard shortcuts act as the buttons, in either letter case;
  \<^item> the results patterns return the capture of the leftmost match.  Whenever both match,
    both angles are announced, parsed and rounded.  When no label occurrence is followed by a
    colon, a space or a digit (a full-width colon, for instance), the text counts as no result;
  \<^item> the matcher is sound and complete for the leftmost-first match; the homophone test
    equals membership of one of the listed strings.  The numeral parser inverts the standard
    Chinese reading of every number below \<open>10 ^ 4\<close> (\<open>cn_numeral\<close>, a reference
    definition).  It also loses leading fraction zeros, and it implies a one before a larger unit.

  Not modelled: the static help and tips panels and the buttons' markup (lines 411--460,
  485--503: HTML only, no state), the styling and the time stamps of the log entries, browser
  notifications, and the speech engines themselves, whose observable behaviour (start, stop,
  end, error; speak, end, error) is the environment of the model.  \<open>Math.round\<close> is
  modelled on the exact value: a product \<open>x * 100\<close> that the double rounds just below a
  half (as for 1.005) is rounded up by the model and down by the program.
\<close>

subsection \<open>Announcements\<close>

text \<open>
  C1: in every reachable state the texts handed to the synthesis engine, followed by the ones
  still waiting, are exactly the texts passed to \<open>speak\<close>, in order (FIFO, each once); when
  \<open>isSpeaking\<close> is false nothing is playing, so \<open>speechSynthesis.cancel()\<close> never cuts
  an announcement off; and what is playing is the head of the queue.
\<close>

theorem reachable_utterances_fifo:
  assumes "reachable fmt w"
  shows "spoken w @ (if isSpeaking w then tl (speechQueue w) else speechQueue w) = enqueued w \<and>
         (\<not> isSpeaking w \<longrightarrow> synth_current w = None) \<and>
         (isSpeaking w \<longrightarrow> synth_current w = Some (hd (speechQueue w)))"
  using reachable_queue_inv [OF assms] by (auto simp: queue_inv_def)

theorem reachable_utterances_fifo_witness:
  "reachable (\<lambda>_. []) (the (run (\<lambda>_. []) init_world [StartVoice, UtteranceEnd, StopVoice])) \<and>
   spoken (the (run (\<lambda>_. []) init_world [StartVoice, UtteranceEnd, StopVoice])) =
     [msg_voice_on, msg_voice_off] \<and>
   synth_current (the (run (\<lambda>_. []) init_world [StartVoice, UtteranceEnd, StopVoice])) =
     Some msg_voice_off"
proof -
  let ?w = "the (run (\<lambda>_. []) init_world [StartVoice, UtteranceEnd, StopVoice])"
  have r: "run (\<lambda>_. []) init_world [StartVoice, UtteranceEnd, StopVoice] = Some ?w"
    by (simp add: step_eval)
  have reach: "reachable (\<lambda>_. []) ?w"
    by (rule run_reachable [OF reachable.init r])
  have e: "enqueued ?w = [msg_voice_on, msg_voice_off]" and q: "speechQueue ?w = [msg_voice_off]"
    and sp: "isSpeaking ?w"
    using r by (auto simp: step_eval)
  show ?thesis
    using reachable_utterances_fifo [OF reach] reach e q sp by simp
qed

text \<open>
  C2: no announcement is starved: from every reachable state, the synthesis engine finishing
  its utterances and the pending 300 ms timers firing, with no other event, empty the queue,
  and then every text ever passed to \<open>speak\<close> has been handed to the engine.
\<close>

theorem reachable_queue_drains:
  assumes "reachable fmt w"
  shows "\<exists>es w'. set es \<subseteq> drain_events \<and> run fmt w es = Some w' \<and>
           speechQueue w' = [] \<and> \<not> isSpeaking w' \<and> spoken w' = enqueued w"
proof -
  obtain es w' where r: "set es \<subseteq> drain_events" "run fmt w es = Some w'" "speechQueue w' = []"
      "\<not> isSpeaking w'" "enqueued w' = enqueued w" "queue_inv w'"
    using drain_run [OF reachable_queue_inv [OF assms] reachable_drain_ok [OF assms]] by blast
  then have "spoken w' = enqueued w" by (simp add: queue_inv_def)
  with r show ?thesis by blast
qed

theorem reachable_queue_drains_witness:
  "reachable (\<lambda>_. []) (the (run (\<lambda>_. []) init_world [StartVoice, StopVoice, UtteranceError])) \<and>
   speechQueue (the (run (\<lambda>_. []) init_world [StartVoice, StopVoice, UtteranceError])) = [msg_voice_off] \<and>
   timers (the (run (\<lambda>_. []) init_world [StartVoice, StopVoice, UtteranceError])) = [ProcessQueueLater] \<and>
   (\<exists>es w'. set es \<subseteq> drain_events \<and>
      run (\<lambda>_. []) (the (run (\<lambda>_. []) init_world [StartVoice, StopVoice, UtteranceError])) es = Some w' \<and>
      speechQueue w' = [] \<and> \<not> isSpeaking w' \<and> spoken w' = [msg_voice_on, msg_voice_off])"
proof -
  let ?w = "the (run (\<lambda>_. []) init_world [StartVoice, StopVoice, UtteranceError])"
  have r: "run (\<lambda>_. []) init_world [StartVoice, StopVoice, UtteranceError] = Some ?w"
    by (simp add: step_eval)
  have reach: "reachable (\<lambda>_. []) ?w"
    by (rule run_reachable [OF reachable.init r])
  have f: "enqueued ?w = [msg_voice_on, msg_voice_off]" "speechQueue ?w = [msg_voice_off]"
    "timers ?w = [ProcessQueueLater]"
    by (simp_all add: step_eval)
  show ?thesis using reachable_queue_drains [OF reach] reach f by simp
qed
subsection \<open>Half duplex\<close>

text \<open>
  C4: \<open>startListening\<close> starts recognition without looking at \<open>isSpeaking\<close>: in every
  state where voice control is off, the window has the focus and the engine is idle, "on"
  starts a recognition session even while an announcement plays.  Such a state is reached by
  "on", the end of the session while the confirmation plays, and "off" (the witness).
\<close>

theorem start_listening_while_speaking:
  assumes "\<not> isListening w" and "lastWindowFocus w" and "rec w = RecIdle" and "isSpeaking w"
  shows "\<exists>w'. step fmt w StartVoice = Some w' \<and> isListening w' \<and> rec w' = RecActive \<and>
           isSpeaking w' \<and> rec_starts w' = rec_starts w @ [True]"
  using assms by (simp add: start_listening_def rec_start_def speak_busy Let_def)

theorem start_listening_while_speaking_witness:
  "reachable (\<lambda>_. []) (the (run (\<lambda>_. []) init_world [StartVoice, RecEnd, StopVoice])) \<and>
   (\<exists>w'. step (\<lambda>_. []) (the (run (\<lambda>_. []) init_world [StartVoice, RecEnd, StopVoice])) StartVoice = Some w' \<and>
      isListening w' \<and> rec w' = RecActive \<and> isSpeaking w' \<and> rec_starts w' = [False, True])"
proof -
  let ?w = "the (run (\<lambda>_. []) init_world [StartVoice, RecEnd, StopVoice])"
  have r: "run (\<lambda>_. []) init_world [StartVoice, RecEnd, StopVoice] = Some ?w"
    by (simp add: step_eval)
  have reach: "reachable (\<lambda>_. []) ?w"
    by (rule run_reachable [OF reachable.init r])
  have h: "\<not> isListening ?w" "lastWindowFocus ?w" "rec ?w = RecIdle" "isSpeaking ?w"
    "rec_starts ?w = [False]"
    by (simp_all add: step_eval)
  show ?thesis using start_listening_while_speaking [OF h(1-4)] reach h(5) by simp
qed

text \<open>
  C5: the restart timer that the end of the last announcement schedules does not look at
  \<open>isListening\<close> or \<open>isSpeaking\<close> when it fires: whenever it is pending and the engine is
  idle, firing it starts recognition and leaves both flags as they are.  After "on", a session
  end, the end of the confirmation and "off", it is pending while voice control is off and the
  "off" confirmation plays (the witness): recognition restarts after "off", during speech.
\<close>

theorem drain_timer_restarts_after_stop:
  assumes "i < length (timers w)" and "timers w ! i = RestartAfterDrain" and "rec w = RecIdle"
  shows "\<exists>w'. step fmt w (FireTimer i page) = Some w' \<and> rec w' = RecActive \<and>
           rec_starts w' = rec_starts w @ [isSpeaking w] \<and>
           isListening w' = isListening w \<and> isSpeaking w' = isSpeaking w"
  using assms by (simp add: run_timer_def uncaught_start_def rec_start_def)

theorem drain_timer_restarts_after_stop_witness:
  "reachable (\<lambda>_. []) (the (run (\<lambda>_. []) init_world [StartVoice, RecEnd, UtteranceEnd, StopVoice])) \<and>
   \<not> isListening (the (run (\<lambda>_. []) init_world [StartVoice, RecEnd, UtteranceEnd, StopVoice])) \<and>
   (\<exists>w'. step (\<lambda>_. []) (the (run (\<lambda>_. []) init_world [StartVoice, RecEnd, UtteranceEnd, StopVoice]))
      (FireTimer 0 None) = Some w' \<and> rec w' = RecActive \<and> \<not> isListening w' \<and> isSpeaking w')"
proof -
  obtain w0 where r: "run (\<lambda>_. []) init_world [StartVoice, RecEnd, UtteranceEnd, StopVoice] = Some w0"
    by (simp add: step_eval)
  have e: "the (run (\<lambda>_. []) init_world [StartVoice, RecEnd, UtteranceEnd, StopVoice]) = w0"
    using r by simp
  have reach: "reachable (\<lambda>_. []) w0"
    by (rule run_reachable [OF reachable.init r])
  from r have h: "0 < length (timers w0)" "timers w0 ! 0 = RestartAfterDrain" "rec w0 = RecIdle"
    "\<not> isListening w0" "isSpeaking w0"
    by (auto simp: step_eval)
  obtain w' where s: "step (\<lambda>_. []) w0 (FireTimer 0 None) = Some w'" "rec w' = RecActive"
    "isListening w' = isListening w0" "isSpeaking w' = isSpeaking w0"
    using drain_timer_restarts_after_stop [OF h(1-3), where fmt = "\<lambda>_. []" and page = None] by blast
  show ?thesis unfolding e using reach s h(4-5) by auto
qed

text \<open>
  C8: switching voice control on while the window has the focus and the recognition session
  has not yet ended makes \<open>recognition.start()\<close> throw \<open>InvalidStateError\<close>; the
  \<open>catch\<close> clears \<open>isListening\<close> again, so the state is unchanged but for the log panel:
  voice control silently stays off, nothing is spoken and the engine is left alone.  "On" right
  after "off", before the session's \<open>end\<close> event, is such a state (the witness).
\<close>

theorem start_after_stop_fails:
  assumes "\<not> isListening w" and "lastWindowFocus w" and "rec w \<noteq> RecIdle"
  shows "start_listening w =
           w\<lparr>log_box := Some [(LogStartFailed InvalidStateError, LogError), (LogInitDone, LogInfo)]\<rparr>"
  using assms by (simp add: start_listening_def rec_start_def Let_def)

theorem start_after_stop_fails_witness:
  "reachable (\<lambda>_. []) (the (run (\<lambda>_. []) init_world [StartVoice, StopVoice])) \<and>
   \<not> isListening (start_listening (the (run (\<lambda>_. []) init_world [StartVoice, StopVoice]))) \<and>
   enqueued (start_listening (the (run (\<lambda>_. []) init_world [StartVoice, StopVoice]))) =
     [msg_voice_on, msg_voice_off]"
proof -
  let ?w = "the (run (\<lambda>_. []) init_world [StartVoice, StopVoice])"
  have r: "run (\<lambda>_. []) init_world [StartVoice, StopVoice] = Some ?w"
    by (simp add: step_eval)
  have reach: "reachable (\<lambda>_. []) ?w"
    by (rule run_reachable [OF reachable.init r])
  have h: "\<not> isListening ?w" "lastWindowFocus ?w" "rec ?w \<noteq> RecIdle"
    "enqueued ?w = [msg_voice_on, msg_voice_off]"
    by (simp_all add: step_eval)
  show ?thesis using start_after_stop_fails [OF h(1-3)] reach h by simp
qed

text \<open>
  C9: the browser follows a recognition \<open>error\<close> with an \<open>end\<close>.  Whenever an error is
  reported in an open session while listening and silent, the end listener restarts
  recognition at once, and the retry the error listener scheduled then finds the engine
  running: its \<open>recognition.start()\<close> throws an \<open>InvalidStateError\<close> that nothing catches.
\<close>

theorem rec_error_retry_throws:
  assumes "rec w \<noteq> RecIdle" and "isListening w" and "\<not> isSpeaking w"
  shows "\<exists>w1 w2 w3. step fmt w (RecError err) = Some w1 \<and> step fmt w1 RecEnd = Some w2 \<and>
           step fmt w2 (FireTimer (length (timers w)) page) = Some w3 \<and>
           rec w3 = RecActive \<and> uncaught w3 = uncaught w @ [InvalidStateError]"
  using assms by (simp add: on_rec_error_def on_rec_end_def run_timer_def remove_nth_def
      uncaught_start_def rec_start_def add_timer_def Let_def)

theorem rec_error_retry_throws_witness:
  "reachable (\<lambda>_. []) (the (run (\<lambda>_. []) init_world [StartVoice, UtteranceEnd])) \<and>
   (\<exists>w1 w2 w3. step (\<lambda>_. []) (the (run (\<lambda>_. []) init_world [StartVoice, UtteranceEnd]))
      (RecError (js_str ''network'')) = Some w1 \<and> step (\<lambda>_. []) w1 RecEnd = Some w2 \<and>
      step (\<lambda>_. []) w2 (FireTimer 1 None) = Some w3 \<and> uncaught w3 = [InvalidStateError])"
proof -
  obtain w0 where r: "run (\<lambda>_. []) init_world [StartVoice, UtteranceEnd] = Some w0"
    by (simp add: step_eval)
  have e: "the (run (\<lambda>_. []) init_world [StartVoice, UtteranceEnd]) = w0"
    using r by simp
  have reach: "reachable (\<lambda>_. []) w0"
    by (rule run_reachable [OF reachable.init r])
  from r have h: "rec w0 \<noteq> RecIdle" "isListening w0" "\<not> isSpeaking w0" "length (timers w0) = 1"
    "uncaught w0 = []"
    by (auto simp: step_eval)
  obtain w1 w2 w3 where s: "step (\<lambda>_. []) w0 (RecError (js_str ''network'')) = Some w1"
    "step (\<lambda>_. []) w1 RecEnd = Some w2" "step (\<lambda>_. []) w2 (FireTimer (length (timers w0)) None) = Some w3"
    "uncaught w3 = uncaught w0 @ [InvalidStateError]"
    using rec_error_retry_throws [OF h(1-3), where fmt = "\<lambda>_. []" and err = "js_str ''network''"
        and page = None] by blast
  show ?thesis unfolding e using reach s h(4-5) by auto
qed

subsection \<open>Recovery after a failed announcement\<close>

text \<open>
  C6: \<open>onerror\<close> of the last announcement does not resume recognition (\<open>onend\<close> does):
  after "on", a session end while the confirmation plays, and a synthesis error, the handler
  is listening with the window focused but no session, no timer and nothing playing; only the
  user's focus, blur or stop events remain possible, and "start" does nothing.
\<close>

theorem utterance_error_stalls_listening:
  "case run fmt init_world [StartVoice, RecEnd, UtteranceError] of
     Some w \<Rightarrow> isListening w \<and> lastWindowFocus w \<and> rec w = RecIdle \<and> \<not> isSpeaking w \<and>
       timers w = [] \<and>
       {e. step fmt w e \<noteq> None} \<subseteq> {Focus, Blur, StartVoice, StopVoice} \<union> {KeyDown a k | a k. True} \<and>
       start_listening w = w
   | None \<Rightarrow> False"
proof -
  obtain w where r: "run fmt init_world [StartVoice, RecEnd, UtteranceError] = Some w"
    by (simp add: step_eval)
  from r have p: "isListening w \<and> lastWindowFocus w \<and> rec w = RecIdle \<and> \<not> isSpeaking w \<and>
      synth_current w = None \<and> timers w = [] \<and> start_listening w = w"
    by (auto simp: step_eval)
  then have "{e. step fmt w e \<noteq> None} \<subseteq> {Focus, Blur, StartVoice, StopVoice} \<union> {KeyDown a k | a k. True}"
    using idle_world_only_user_events by blast
  with p show ?thesis unfolding r option.case by blast
qed

subsection \<open>From a transcript to the calculator\<close>

text \<open>
  C12: a recognition result "fu 35 du" (a homophone of the negative sign, 35, degrees) sets the
  aim angle to -35, writes it into the calculator's angle field, clicks "calculate" when a
  distance is already known, and queues the confirmation of the negative angle.
\<close>

theorem result_event_negative_angle:
  assumes "rec w \<noteq> RecIdle" and "step fmt w (RecResult [FU_PAY, 0x33, 0x35, DU]) = Some w'"
  shows "lastSetAngle w' = Some (-35) \<and> lastSetDistance w' = lastSetDistance w \<and>
         enqueued w' = enqueued w @ [msg_set_angle fmt (-35)] \<and>
         calc_log w' = calc_log w @ SetInputThetaAim (-35) #
           (if lastSetDistance w \<noteq> None then [ClickTrackerDart, ClickCalc] else [])"
proof -
  have "js_trim [FU_PAY, 0x33, 0x35, DU] = [FU_PAY, 0x33, 0x35, DU]"
    by (simp add: js_string_simps)
  then show ?thesis
    using assms by (auto simp: on_result_def process_command_def extract_eval parse_eval
      check_and_calculate_def add_timer_def Let_def)
qed

theorem result_event_negative_angle_witness:
  "rec (start_listening init_world) \<noteq> RecIdle \<and>
   step (\<lambda>_. []) (start_listening init_world) (RecResult [FU_PAY, 0x33, 0x35, DU]) =
     Some (on_result (\<lambda>_. []) [FU_PAY, 0x33, 0x35, DU] (start_listening init_world)) \<and>
   lastSetAngle (on_result (\<lambda>_. []) [FU_PAY, 0x33, 0x35, DU] (start_listening init_world)) = Some (-35)"
proof -
  have r: "rec (start_listening init_world) \<noteq> RecIdle" by (simp add: step_eval)
  have s: "step (\<lambda>_. []) (start_listening init_world) (RecResult [FU_PAY, 0x33, 0x35, DU]) =
     Some (on_result (\<lambda>_. []) [FU_PAY, 0x33, 0x35, DU] (start_listening init_world))"
    using r by simp
  show ?thesis using result_event_negative_angle [OF r s] r s by simp
qed


text \<open>
  C13: well-formed state: in every reachable state the recorded distance and every value written
  into the calculator's distance field are non-negative (the negative sense is only applied to
  angles, and both numeral parsers return non-negative values).
\<close>

theorem reachable_distances_nonneg:
  assumes "reachable fmt w"
  shows "(\<forall>d. lastSetDistance w = Some d \<longrightarrow> 0 \<le> d) \<and>
         (\<forall>d. SetInputD d \<in> set (calc_log w) \<longrightarrow> 0 \<le> d)"
  using reachable_dist_ok [OF assms] by (simp add: dist_ok_def)

theorem reachable_distances_nonneg_witness:
  "reachable (\<lambda>_. []) (the (run (\<lambda>_. []) init_world [StartVoice, RecResult [0x33, 0x35, 0x30, MI]])) \<and>
   lastSetDistance (the (run (\<lambda>_. []) init_world [StartVoice, RecResult [0x33, 0x35, 0x30, MI]])) = Some 350 \<and>
   0 \<le> (350 :: real)"
proof -
  let ?w = "the (run (\<lambda>_. []) init_world [StartVoice, RecResult [0x33, 0x35, 0x30, MI]])"
  have t: "js_trim [0x33, 0x35, 0x30, MI] = [0x33, 0x35, 0x30, MI]"
    by (simp add: js_string_simps)
  have r: "run (\<lambda>_. []) init_world [StartVoice, RecResult [0x33, 0x35, 0x30, MI]] = Some ?w"
    by (simp add: step_eval)
  have reach: "reachable (\<lambda>_. []) ?w"
    by (rule run_reachable [OF reachable.init r])
  have d: "lastSetDistance ?w = Some 350"
    using t by (simp add: step_eval process_command_def extract_eval parse_eval check_and_calculate_def)
  show ?thesis using reachable_distances_nonneg [OF reach] reach d by simp
qed


subsection \<open>The log panel\<close>

text \<open>
  C15: in every reachable state the log panel holds at most ten entries.
\<close>

theorem reachable_log_bounded:
  assumes "reachable fmt w" and "log_box w = Some cs"
  shows "length cs \<le> max_log_entries"
  using reachable_log_inv [OF assms(1)] assms(2)
  by (auto simp: log_inv_def log_ok_def log_pristine_def)

theorem reachable_log_bounded_witness:
  "reachable (\<lambda>_. []) (the (run (\<lambda>_. []) init_world [StartVoice, StopVoice])) \<and>
   log_box (the (run (\<lambda>_. []) init_world [StartVoice, StopVoice])) =
     Some [(LogVoiceOff, LogInfo), (LogVoiceOn, LogInfo), (LogInitDone, LogInfo)] \<and>
   length [(LogVoiceOff, LogInfo), (LogVoiceOn, LogInfo), (LogInitDone, LogInfo)] \<le> max_log_entries"
proof -
  let ?w = "the (run (\<lambda>_. []) init_world [StartVoice, StopVoice])"
  have r: "run (\<lambda>_. []) init_world [StartVoice, StopVoice] = Some ?w"
    by (simp add: step_eval)
  have reach: "reachable (\<lambda>_. []) ?w"
    by (rule run_reachable [OF reachable.init r])
  have b: "log_box ?w = Some [(LogVoiceOff, LogInfo), (LogVoiceOn, LogInfo), (LogInitDone, LogInfo)]"
    by (simp add: step_eval)
  show ?thesis using reachable_log_bounded [OF reach b] reach b by simp
qed

text \<open>
  C14: \<open>addLog\<close> never takes its error branch (\<open>console.error\<close>, the panel missing):
  nothing logs before \<open>startListening\<close> has created the panel, and it is never removed.
\<close>

theorem reachable_no_console_error:
  assumes "reachable fmt w"
  shows "console_errors w = 0"
  using reachable_log_inv [OF assms] by (auto simp: log_inv_def log_ok_def log_pristine_def)

theorem reachable_no_console_error_witness:
  "reachable (\<lambda>_. []) init_world \<and> console_errors init_world = 0"
  using reachable_no_console_error [OF reachable.init] by (simp add: reachable.init)

text \<open>
  C18: \<open>startListening\<close> calls \<open>createLogBox\<close>, which removes the existing panel: every
  switch-on leaves only the panel's first entry and the outcome of the start, whatever was
  logged before (the comment at line 323 says it only makes sure the panel exists).
\<close>

theorem start_listening_resets_log:
  assumes "\<not> isListening w"
  shows "log_box (start_listening w) =
           Some [(if lastWindowFocus w \<and> rec w \<noteq> RecIdle
                  then (LogStartFailed InvalidStateError, LogError) else (LogVoiceOn, LogInfo)),
                 (LogInitDone, LogInfo)]"
  using assms by (simp add: start_listening_def rec_start_def Let_def)

theorem start_listening_resets_log_witness:
  "\<not> isListening (init_world\<lparr>log_box := Some [(LogVoiceOff, LogInfo)]\<rparr>) \<and>
   log_box (start_listening (init_world\<lparr>log_box := Some [(LogVoiceOff, LogInfo)]\<rparr>)) =
     Some [(LogVoiceOn, LogInfo), (LogInitDone, LogInfo)]"
  using start_listening_resets_log [of "init_world\<lparr>log_box := Some [(LogVoiceOff, LogInfo)]\<rparr>"]
  by (simp add: init_world_def)

subsection \<open>Keyboard shortcuts\<close>

text \<open>
  C19: Alt+V and Alt+C, in either case, act exactly as the "on" and "off" buttons; a key
  pressed without Alt does nothing.
\<close>

theorem keyboard_shortcuts_are_buttons:
  "step fmt w (KeyDown True (js_str ''v'')) = step fmt w StartVoice \<and>
   step fmt w (KeyDown True (js_str ''V'')) = step fmt w StartVoice \<and>
   step fmt w (KeyDown True (js_str ''c'')) = step fmt w StopVoice \<and>
   step fmt w (KeyDown True (js_str ''C'')) = step fmt w StopVoice \<and>
   step fmt w (KeyDown False key) = Some w"
  by (simp add: on_keydown_def js_to_lower_def to_lower_char_def js_str_def)

subsection \<open>Reading the results\<close>

text \<open>
  C21: whenever both patterns match the results text, the callback announces both angles, the
  low one first, each parsed by \<open>parseFloat\<close> and rounded to two decimals by
  \<open>Math.round(x * 100) / 100\<close>.
\<close>

theorem read_results_both_angles:
  assumes "results_search low_label text = Some l" and "results_search high_label text = Some h"
  shows "enqueued (read_results fmt (Some text) w) =
           enqueued w @
             [[0x8BA1, 0x7B97, 0x5B8C, 0x6210, 0xFF0C] @ low_label @ fmt (round2 (the (js_parse_float l)))
              @ [DU, 0xFF0C] @ high_label @ fmt (round2 (the (js_parse_float h))) @ [DU]]"
proof -
  obtain a b where a: "js_parse_float l = Some a" and b: "js_parse_float h = Some b"
    using results_search_parse_float [OF assms(1)] results_search_parse_float [OF assms(2)] by auto
  show ?thesis
    using assms a b by (simp add: read_results_def msg_results_def low_label_def high_label_def Let_def)
qed

theorem read_results_both_angles_witness:
  "results_search low_label (low_label @ js_str '': 12.3456'' @ [DU, 0xFF0C] @ high_label @ js_str ''67.891'' @ [DU])
     = Some (js_str ''12.3456'') \<and>
   results_search high_label (low_label @ js_str '': 12.3456'' @ [DU, 0xFF0C] @ high_label @ js_str ''67.891'' @ [DU])
     = Some (js_str ''67.891'') \<and>
   enqueued (read_results (\<lambda>_. []) (Some (low_label @ js_str '': 12.3456'' @ [DU, 0xFF0C] @ high_label
       @ js_str ''67.891'' @ [DU])) init_world) =
     [[0x8BA1, 0x7B97, 0x5B8C, 0x6210, 0xFF0C] @ low_label @ [DU, 0xFF0C] @ high_label @ [DU]]"
proof -
  let ?text = "low_label @ js_str '': 12.3456'' @ [DU, 0xFF0C] @ high_label @ js_str ''67.891'' @ [DU]"
  have lo: "results_search low_label ?text = Some (js_str ''12.3456'')"
    by (simp add: results_eval js_str_def)
  have hi: "results_search high_label ?text = Some (js_str ''67.891'')"
    by (simp add: results_eval js_str_def)
  show ?thesis using read_results_both_angles [OF lo hi, where fmt = "\<lambda>_. []" and w = init_world] lo hi
    by (simp add: init_world_def)
qed

text \<open>
  C22: the patterns accept only the ASCII colon or white space between a label and its number:
  when every occurrence of both labels in the results text is followed by another character
  that is not a digit (the full-width colon U+FF1A used in Chinese text, for instance), neither
  angle is found and the callback announces that no valid result was found.
\<close>

theorem read_results_fullwidth_colon:
  assumes "label_blocked low_label text" and "label_blocked high_label text"
  shows "enqueued (read_results fmt (Some text) w) = enqueued w @ [msg_results fmt None None]"
proof -
  have "results_search low_label text = None" "results_search high_label text = None"
    using results_search_blocked assms by (simp_all add: low_label_def high_label_def)
  then show ?thesis by (simp add: read_results_def Let_def)
qed

theorem read_results_fullwidth_colon_witness:
  "label_blocked low_label (low_label @ [0xFF1A] @ js_str ''12.5'' @ [DU, 0xFF0C] @ high_label @ [0xFF1A]
     @ js_str ''67.9'' @ [DU]) \<and>
   label_blocked high_label (low_label @ [0xFF1A] @ js_str ''12.5'' @ [DU, 0xFF0C] @ high_label @ [0xFF1A]
     @ js_str ''67.9'' @ [DU]) \<and>
   enqueued (read_results (\<lambda>_. []) (Some (low_label @ [0xFF1A] @ js_str ''12.5'' @ [DU, 0xFF0C] @ high_label
     @ [0xFF1A] @ js_str ''67.9'' @ [DU])) init_world) = [msg_results (\<lambda>_. []) None None]"
proof -
  let ?text = "low_label @ [0xFF1A] @ js_str ''12.5'' @ [DU, 0xFF0C] @ high_label @ [0xFF1A]
     @ js_str ''67.9'' @ [DU]"
  have lo: "label_blocked low_label ?text" and hi: "label_blocked high_label ?text"
    by (simp_all add: results_eval js_str_def)
  show ?thesis using read_results_fullwidth_colon [OF lo hi, where fmt = "\<lambda>_. []" and w = init_world] lo hi
    by (simp add: init_world_def)
qed

end
